theory Spec2Isabelle
  imports Complex_Main
begin

section \<open>Gesture types (types.ts)\<close>

datatype GestureMode = IDLE | ROTATE_VIEW | ROTATE_Z | SCALE_UP | SCALE_DOWN

text \<open>
  \<^verbatim>\<open>GestureData\<close>. The fields \<^verbatim>\<open>x\<close> and \<^verbatim>\<open>y\<close> of the source are called
  \<open>hand_x\<close> and \<open>hand_y\<close> here, so that \<open>x\<close> and \<open>y\<close> stay usable as variables.
  JavaScript numbers are modelled as real numbers; where a claim depends on the rounding
  of the arithmetic, the operations are rounded explicitly (see the next section).
\<close>

record GestureData =
  mode :: GestureMode
  detected :: bool
  scaleTarget :: real
  rotationZ :: real
  hand_x :: real
  hand_y :: real
  fingersCount :: nat

text \<open>\<^verbatim>\<open>NormalizedLandmark\<close> of the hand-landmark detector: a 3D point.\<close>

record NormalizedLandmark =
  lm_x :: real
  lm_y :: real
  lm_z :: real

text \<open>Exceptions as values: a TypeError, or an \<^verbatim>\<open>Error\<close> with its message.\<close>

datatype js_error = TypeError | Error string

section \<open>Rounding of numbers\<close>

text \<open>
  A JavaScript number is an IEEE double and an entry of a \<^verbatim>\<open>Float32Array\<close> an IEEE single:
  the result of an arithmetic operation, resp. a stored value, is the nearest number of
  the format, a tie going to the even mantissa. \<open>round_nearest p emin\<close> is this rounding
  for a mantissa of \<open>p\<close> bits and the least exponent \<open>emin\<close>, on the real numbers;
  \<open>rint\<close> rounds to the nearest integer, a tie to the even one. Numbers beyond the largest
  finite number of a format, which IEEE rounds to an infinity, are not treated: they do
  not arise from the bounded values rounded below.
\<close>

definition rint :: "real \<Rightarrow> int" where
  "rint y =
     (let f = \<lfloor>y\<rfloor>
      in if y - of_int f < 1 / 2 then f
         else if y - of_int f > 1 / 2 then f + 1
         else if even f then f else f + 1)"

definition round_nearest :: "nat \<Rightarrow> int \<Rightarrow> real \<Rightarrow> real" where
  "round_nearest p emin x =
     (if x = 0 then 0
      else
        let e = max \<lfloor>log 2 \<bar>x\<bar>\<rfloor> emin;
            ulp = 2 powr (of_int e - real p + 1)
        in ulp * of_int (rint (x / ulp)))"

text \<open>\<^verbatim>\<open>Math.fround\<close>, the value a \<^verbatim>\<open>Float32Array\<close> keeps, and the rounding to a double.\<close>

definition fround :: "real \<Rightarrow> real" where
  "fround x = round_nearest 24 (- 126) x"

definition dbl :: "real \<Rightarrow> real" where
  "dbl x = round_nearest 53 (- 1022) x"

section \<open>HandTracker (Controls.tsx, second document)\<close>

text \<open>\<^verbatim>\<open>Math.hypot(a, b)\<close> and \<^verbatim>\<open>Math.atan2(y, x)\<close> on real numbers.\<close>

definition hypot :: "real \<Rightarrow> real \<Rightarrow> real" where
  "hypot a b = sqrt (a * a + b * b)"

definition atan2 :: "real \<Rightarrow> real \<Rightarrow> real" where
  "atan2 dy dx =
     (if 0 < dx then arctan (dy / dx)
      else if dx < 0 \<and> 0 \<le> dy then arctan (dy / dx) + pi
      else if dx < 0 then arctan (dy / dx) - pi
      else if 0 < dy then pi / 2
      else if dy < 0 then - (pi / 2)
      else 0)"

text \<open>
  The state the tracker owns or shares: the gesture record behind \<^verbatim>\<open>gestureRef\<close>,
  the React state \<^verbatim>\<open>currentMode\<close> and the throttle stamp \<^verbatim>\<open>lastTimeRef\<close>.
\<close>

record tracker =
  gesture :: GestureData
  currentMode :: GestureMode
  lastTime :: real

definition isExtended :: "NormalizedLandmark list \<Rightarrow> nat \<Rightarrow> nat \<Rightarrow> bool" where
  "isExtended landmarks tipIdx pipIdx =
     (let wrist = landmarks ! 0;
          dTip = hypot (lm_x (landmarks ! tipIdx) - lm_x wrist) (lm_y (landmarks ! tipIdx) - lm_y wrist);
          dPip = hypot (lm_x (landmarks ! pipIdx) - lm_x wrist) (lm_y (landmarks ! pipIdx) - lm_y wrist)
      in dTip > dPip)"

definition decideMode :: "bool \<Rightarrow> bool \<Rightarrow> bool \<Rightarrow> bool \<Rightarrow> bool \<Rightarrow> nat \<Rightarrow> GestureMode" where
  "decideMode thumbOpen indexOpen middleOpen ringOpen pinkyOpen fingerCount =
     (if thumbOpen \<and> indexOpen \<and> middleOpen \<and> \<not> ringOpen \<and> \<not> pinkyOpen then ROTATE_Z
      else if thumbOpen \<and> indexOpen \<and> \<not> middleOpen \<and> \<not> ringOpen \<and> \<not> pinkyOpen then ROTATE_VIEW
      else if fingerCount = 5 then SCALE_UP
      else if fingerCount = 0 then SCALE_DOWN
      else IDLE)"

text \<open>
  The two conditional writes at the end of \<^verbatim>\<open>processGestures\<close>: the planar roll angle
  (index tip against middle tip) and the scale targets.
\<close>

definition writeRotationZ :: "NormalizedLandmark list \<Rightarrow> GestureMode \<Rightarrow> GestureData \<Rightarrow> GestureData" where
  "writeRotationZ landmarks m data =
     (if m = ROTATE_Z then
        let dx = lm_x (landmarks ! 12) - lm_x (landmarks ! 8);
            dy = lm_y (landmarks ! 12) - lm_y (landmarks ! 8)
        in data\<lparr>rotationZ := atan2 dy dx\<rparr>
      else data)"

definition writeScaleTarget :: "GestureMode \<Rightarrow> GestureData \<Rightarrow> GestureData" where
  "writeScaleTarget m data =
     (if m = SCALE_UP then data\<lparr>scaleTarget := 3.0\<rparr>
      else if m = SCALE_DOWN then data\<lparr>scaleTarget := 1.0\<rparr>
      else data)"

text \<open>
  \<^verbatim>\<open>processGestures\<close> without the HUD drawing. Reading a field of a landmark that the
  array does not hold raises a TypeError; the highest index read is 20, and all five
  finger tests run before the first write to the shared record.
\<close>

definition processGestures :: "NormalizedLandmark list \<Rightarrow> tracker \<Rightarrow> js_error + tracker" where
  "processGestures landmarks st =
     (if length landmarks \<le> 20 then Inl TypeError
      else
        let thumbOpen = isExtended landmarks 4 2;
            indexOpen = isExtended landmarks 8 6;
            middleOpen = isExtended landmarks 12 10;
            ringOpen = isExtended landmarks 16 14;
            pinkyOpen = isExtended landmarks 20 18;
            fingerCount = length (filter id [thumbOpen, indexOpen, middleOpen, ringOpen, pinkyOpen]);
            m = decideMode thumbOpen indexOpen middleOpen ringOpen pinkyOpen fingerCount;
            data = gesture st;
            data = data\<lparr>detected := True\<rparr>;
            data = data\<lparr>mode := m\<rparr>;
            data = data\<lparr>fingersCount := fingerCount\<rparr>;
            handCenter = landmarks ! 9;
            data = data\<lparr>hand_x := lm_x handCenter\<rparr>;
            data = data\<lparr>hand_y := lm_y handCenter\<rparr>;
            data = writeRotationZ landmarks m data;
            data = writeScaleTarget m data
        in Inr (st\<lparr>gesture := data, currentMode := m\<rparr>))"

text \<open>The branch of the polling loop taken when the detector reports no hand.\<close>

definition noHand :: "tracker \<Rightarrow> tracker" where
  "noHand st =
     (let data = gesture st;
          data = data\<lparr>detected := False\<rparr>;
          data = data\<lparr>mode := IDLE\<rparr>;
          data = data\<lparr>hand_x := 0\<rparr>;
          data = data\<lparr>hand_y := 0\<rparr>
      in st\<lparr>gesture := data, currentMode := IDLE\<rparr>)"

text \<open>
  One run of \<^verbatim>\<open>loop\<close>: \<open>now\<close> is \<^verbatim>\<open>performance.now()\<close>, \<open>videoReady\<close> says that the
  video element exists with \<^verbatim>\<open>readyState >= 2\<close>, and \<open>results\<close> is the field
  \<^verbatim>\<open>landmarks\<close> of what the detector returns (\<open>None\<close> when it is absent).
\<close>

definition loop :: "real \<Rightarrow> bool \<Rightarrow> NormalizedLandmark list list option \<Rightarrow> tracker \<Rightarrow> js_error + tracker" where
  "loop now videoReady results st =
     (if now - lastTime st \<ge> 33 \<and> videoReady then
        let st = st\<lparr>lastTime := now\<rparr>
        in (case results of
              Some (landmarks # rest) \<Rightarrow> processGestures landmarks st
            | _ \<Rightarrow> Inr (noHand st))
      else Inr st)"

subsection \<open>The classifier as the specification words it, and fixtures\<close>

text \<open>
  Distances between landmarks: in the image plane (what \<^verbatim>\<open>Math.hypot\<close> is applied to in
  \<^verbatim>\<open>isExtended\<close>), and the Euclidean distance of the 3D points.
\<close>

definition planar_dist :: "NormalizedLandmark \<Rightarrow> NormalizedLandmark \<Rightarrow> real" where
  "planar_dist a b = sqrt ((lm_x a - lm_x b)\<^sup>2 + (lm_y a - lm_y b)\<^sup>2)"

definition euclid_dist :: "NormalizedLandmark \<Rightarrow> NormalizedLandmark \<Rightarrow> real" where
  "euclid_dist a b = sqrt ((lm_x a - lm_x b)\<^sup>2 + (lm_y a - lm_y b)\<^sup>2 + (lm_z a - lm_z b)\<^sup>2)"

text \<open>The mode decision as a priority list over the five finger states.\<close>

definition spec_mode :: "bool \<Rightarrow> bool \<Rightarrow> bool \<Rightarrow> bool \<Rightarrow> bool \<Rightarrow> GestureMode" where
  "spec_mode T I M R P =
     (if T \<and> I \<and> M \<and> \<not> R \<and> \<not> P then ROTATE_Z
      else if T \<and> I \<and> \<not> M \<and> \<not> R \<and> \<not> P then ROTATE_VIEW
      else if T \<and> I \<and> M \<and> R \<and> P then SCALE_UP
      else if \<not> T \<and> \<not> I \<and> \<not> M \<and> \<not> R \<and> \<not> P then SCALE_DOWN
      else IDLE)"

definition planar_extended :: "NormalizedLandmark list \<Rightarrow> nat \<Rightarrow> nat \<Rightarrow> bool" where
  "planar_extended lms tip pip \<longleftrightarrow> planar_dist (lms ! tip) (lms ! 0) > planar_dist (lms ! pip) (lms ! 0)"

text \<open>What a run of the classifier reports: the finger count and the mode, if it returned.\<close>

definition classified :: "js_error + tracker \<Rightarrow> (nat \<times> GestureMode) option" where
  "classified r = (case r of Inl e \<Rightarrow> None | Inr s \<Rightarrow> Some (fingersCount (gesture s), mode (gesture s)))"

definition lm :: "real \<Rightarrow> real \<Rightarrow> real \<Rightarrow> NormalizedLandmark" where
  "lm a b c = \<lparr>lm_x = a, lm_y = b, lm_z = c\<rparr>"

text \<open>The initial shared record of \<^verbatim>\<open>App\<close>, and synthetic landmark frames.\<close>

definition tracker0 :: tracker where
  "tracker0 = \<lparr>gesture = \<lparr>mode = IDLE, detected = False, scaleTarget = 1.0, rotationZ = 0,
                  hand_x = 0, hand_y = 0, fingersCount = 0\<rparr>, currentMode = IDLE, lastTime = 0\<rparr>"

definition frame_depth :: "NormalizedLandmark list" where
  "frame_depth =
     [lm 0 0 0, lm 0 0 0, lm 0 0 0.5, lm 0 0 0, lm 0.1 0 0,
      lm 0 0 0, lm 0 0 0.5, lm 0 0 0, lm 0.1 0 0,
      lm 0 0 0, lm 0 0 0.5, lm 0 0 0, lm 0.1 0 0,
      lm 0 0 0, lm 0 0 0.5, lm 0 0 0, lm 0.1 0 0,
      lm 0 0 0, lm 0 0 0.5, lm 0 0 0, lm 0.1 0 0]"

definition fixture :: "bool \<Rightarrow> bool \<Rightarrow> bool \<Rightarrow> bool \<Rightarrow> bool \<Rightarrow> NormalizedLandmark list" where
  "fixture t i m r p =
     (let tip = (\<lambda>b. lm (if b then 0.2 else 0.05) 0 0); pip = lm 0.1 0 0; rest = lm 0 0 0
      in [rest, rest, pip, rest, tip t, rest, pip, rest, tip i, rest, pip, rest, tip m,
          rest, pip, rest, tip r, rest, pip, rest, tip p])"

definition tracker_seen :: tracker where
  "tracker_seen = \<lparr>gesture = \<lparr>mode = ROTATE_VIEW, detected = True, scaleTarget = 1.0, rotationZ = 0,
        hand_x = 0.4, hand_y = 0.6, fingersCount = 2\<rparr>, currentMode = ROTATE_VIEW, lastTime = 100\<rparr>"

definition tracker_open :: tracker where
  "tracker_open = \<lparr>gesture = \<lparr>mode = SCALE_UP, detected = True, scaleTarget = 3.0, rotationZ = 0,
        hand_x = 0.5, hand_y = 0.5, fingersCount = 5\<rparr>, currentMode = SCALE_UP, lastTime = 100\<rparr>"

section \<open>InteractionRig (geometry.ts, second document)\<close>

text \<open>
  \<^verbatim>\<open>THREE.MathUtils.lerp\<close> is code of the three.js library, outside the repository; the
  library defines it as \<^verbatim>\<open>(1 - t) * x + t * y\<close>. Each of its four operations rounds to a
  double, and so do the products that give \<^verbatim>\<open>lerpSpeed\<close> in the rig.
\<close>

definition lerp :: "real \<Rightarrow> real \<Rightarrow> real \<Rightarrow> real" where
  "lerp a b t = dbl (dbl (dbl (1 - t) * a) + dbl (t * b))"

text \<open>The three refs of the rig: \<^verbatim>\<open>currentScale\<close>, \<^verbatim>\<open>currentRoll\<close>, \<^verbatim>\<open>lastHandPos\<close>.\<close>

record InteractionState =
  currentScale :: real
  currentRoll :: real
  lastHandPos :: "(real \<times> real) option"

text \<open>
  The callback given to \<^verbatim>\<open>useFrame\<close>. \<open>sceneGroup\<close> and \<open>orbit\<close> say whether
  \<^verbatim>\<open>sceneGroupRef.current\<close> and \<^verbatim>\<open>orbitRef.current\<close> exist. The calls that set the
  angles of the orbit control and the scale and rotation of the scene group act on objects
  of the rendering library and are not part of the state modelled here.
\<close>

definition rigTick :: "bool \<Rightarrow> bool \<Rightarrow> bool \<Rightarrow> GestureData \<Rightarrow> real \<Rightarrow> InteractionState \<Rightarrow> InteractionState" where
  "rigTick enabled sceneGroup orbit data delta s =
     (if \<not> enabled \<or> \<not> sceneGroup then s
      else
        let lerpSpeed = dbl (delta * 5);
            s = (if mode data = ROTATE_VIEW \<or> mode data = ROTATE_Z then
                   s\<lparr>currentScale := lerp (currentScale s) 1.0 lerpSpeed\<rparr>
                 else if mode data = SCALE_UP \<or> mode data = SCALE_DOWN then
                   s\<lparr>currentScale := lerp (currentScale s) (scaleTarget data) lerpSpeed\<rparr>
                 else
                   s\<lparr>currentScale := lerp (currentScale s) 1.0 (dbl (lerpSpeed * 0.5))\<rparr>);
            s = (if mode data = ROTATE_VIEW \<and> orbit then
                   s\<lparr>lastHandPos := Some (hand_x data, hand_y data)\<rparr>
                 else s\<lparr>lastHandPos := None\<rparr>);
            s = (if mode data = ROTATE_Z then
                   s\<lparr>currentRoll := lerp (currentRoll s) (dbl (- rotationZ data + dbl (dbl pi / 2))) lerpSpeed\<rparr>
                 else
                   s\<lparr>currentRoll := lerp (currentRoll s) 0 (dbl (lerpSpeed * 0.5))\<rparr>)
        in s)"

text \<open>
  A run of render ticks with the rig enabled and the scene group mounted, one frame
  delta per tick, all reading the same gesture record (a sustained gesture).
\<close>

fun rigTicks :: "bool \<Rightarrow> GestureData \<Rightarrow> real list \<Rightarrow> InteractionState \<Rightarrow> InteractionState" where
  "rigTicks orbit data [] s = s"
| "rigTicks orbit data (delta # deltas) s = rigTicks orbit data deltas (rigTick True True orbit data delta s)"

text \<open>The rig's initial refs, and the shared record during a SCALE_UP gesture.\<close>

definition rig0 :: InteractionState where
  "rig0 = \<lparr>currentScale = 1.0, currentRoll = 0, lastHandPos = None\<rparr>"

definition data_up :: GestureData where
  "data_up = \<lparr>mode = SCALE_UP, detected = True, scaleTarget = 3.0, rotationZ = 0,
               hand_x = 0.5, hand_y = 0.5, fingersCount = 5\<rparr>"

text \<open>
  Frame deltas are doubles. The doubles nearest to 0.4, 0.2 and 0.04 seconds, which is
  what these literals denote in JavaScript; every frame delta up to the second has a
  \<^verbatim>\<open>lerpSpeed\<close> of at most 1.
\<close>

definition d040 :: real where
  "d040 = 3602879701896397 / 2 ^ 53"

definition d020 :: real where
  "d020 = 3602879701896397 / 2 ^ 54"

definition d004 :: real where
  "d004 = 5764607523034235 / 2 ^ 57"

text \<open>A steady 64 frames per second: every frame delta is 1/64 of a second.\<close>

definition steady :: "nat \<Rightarrow> real" where
  "steady k = 1 / 64"

section \<open>ParticleSystem: the gradient colours (part_000)\<close>

text \<open>
  \<^verbatim>\<open>THREE.Color\<close> with its fields \<^verbatim>\<open>r\<close>, \<^verbatim>\<open>g\<close>, \<^verbatim>\<open>b\<close>, and its method
  \<^verbatim>\<open>lerpColors\<close>, which the three.js library defines channel by channel as
  \<^verbatim>\<open>color1.r + (color2.r - color1.r) * alpha\<close>. Parsing a palette string into a colour
  is the library's work; the palette is taken here as the five parsed colours. The
  constructor gives white for a missing argument.
\<close>

record Color =
  col_r :: real
  col_g :: real
  col_b :: real

definition lerpColors :: "Color \<Rightarrow> Color \<Rightarrow> real \<Rightarrow> Color" where
  "lerpColors color1 color2 alpha =
     \<lparr>col_r = col_r color1 + (col_r color2 - col_r color1) * alpha,
      col_g = col_g color1 + (col_g color2 - col_g color1) * alpha,
      col_b = col_b color1 + (col_b color2 - col_b color1) * alpha\<rparr>"

definition paletteColor :: "Color list \<Rightarrow> nat \<Rightarrow> Color" where
  "paletteColor colorPalette k =
     (if k < length colorPalette then colorPalette ! k else \<lparr>col_r = 1, col_g = 1, col_b = 1\<rparr>)"

text \<open>
  The first pass: bounds of the vertical coordinate. \<open>None\<close> stands for the initial
  \<^verbatim>\<open>Infinity\<close> of \<^verbatim>\<open>minY\<close> and \<^verbatim>\<open>-Infinity\<close> of \<^verbatim>\<open>maxY\<close>, below resp. above
  which every number lies.
\<close>

definition scanStep :: "real list \<Rightarrow> nat \<Rightarrow> real option \<times> real option \<Rightarrow> real option \<times> real option" where
  "scanStep targetPositions i bounds =
     (let y = targetPositions ! (i * 3 + 1);
          minY = fst bounds;
          maxY = snd bounds;
          minY = (if (case minY of None \<Rightarrow> True | Some m \<Rightarrow> y < m) then Some y else minY);
          maxY = (if (case maxY of None \<Rightarrow> True | Some m \<Rightarrow> y > m) then Some y else maxY)
      in (minY, maxY))"

definition scanBounds :: "nat \<Rightarrow> real list \<Rightarrow> real option \<times> real option" where
  "scanBounds N targetPositions = fold (scanStep targetPositions) [0..<N] (None, None)"

text \<open>\<^verbatim>\<open>maxY - minY || 1\<close>: the difference, or 1 when the difference is 0.\<close>

definition heightOf :: "real \<Rightarrow> real \<Rightarrow> real" where
  "heightOf minY maxY = (if maxY - minY = 0 then 1 else maxY - minY)"

text \<open>
  The quotient of two finite numbers in JavaScript is a number, an infinity, or NaN: a
  divisor 0 gives an infinity with the sign of a non-zero dividend, and NaN for the
  dividend 0. (The divisor 0 is taken as \<^verbatim>\<open>+0\<close>, which is what the difference of two
  equal numbers gives.)
\<close>

datatype jsnum = Num real | PosInfinity | NegInfinity | NaN

definition js_div :: "real \<Rightarrow> real \<Rightarrow> jsnum" where
  "js_div a b = (if b \<noteq> 0 then Num (a / b)
                 else if 0 < a then PosInfinity else if a < 0 then NegInfinity else NaN)"

text \<open>
  \<^verbatim>\<open>Math.max(0, Math.min(1, t))\<close>: both functions return NaN for an argument NaN and
  order the infinities below and above every number. The result is a number from 0 to 1
  or NaN, for which \<open>None\<close> stands.
\<close>

definition clampUnit :: "jsnum \<Rightarrow> real option" where
  "clampUnit t = (case t of Num v \<Rightarrow> Some (max 0 (min 1 v))
                   | PosInfinity \<Rightarrow> Some 1 | NegInfinity \<Rightarrow> Some 0 | NaN \<Rightarrow> None)"

definition gradientColor :: "Color \<Rightarrow> Color \<Rightarrow> Color \<Rightarrow> Color \<Rightarrow> Color \<Rightarrow> real \<Rightarrow> Color" where
  "gradientColor c1 c2 c3 c4 c5 t =
     (if t < 0.25 then lerpColors c1 c2 (t / 0.25)
      else if t < 0.5 then lerpColors c2 c3 ((t - 0.25) / 0.25)
      else if t < 0.75 then lerpColors c3 c4 ((t - 0.5) / 0.25)
      else lerpColors c4 c5 ((t - 0.75) / 0.25))"

text \<open>
  The second pass: one iteration writes the three colour channels of particle \<open>i\<close>. An
  entry of the colour buffer is a number or NaN (\<open>None\<close>). When \<open>t\<close> is NaN every
  comparison of the cascade is false, the last branch runs, and \<^verbatim>\<open>lerpColors\<close> with the
  factor NaN gives NaN in all three channels. The channels are computed and kept as real
  numbers: the rounding of this arithmetic and of the store is left aside here.
\<close>

definition colorStep :: "Color list \<Rightarrow> real list \<Rightarrow> real \<Rightarrow> real \<Rightarrow> nat \<Rightarrow> real option list \<Rightarrow> real option list" where
  "colorStep colorPalette targetPositions minY height i colors =
     (let y = targetPositions ! (i * 3 + 1);
          t = js_div (y - minY) height;
          t = clampUnit t
      in case t of
           Some t \<Rightarrow>
             (let finalColor = gradientColor (paletteColor colorPalette 0) (paletteColor colorPalette 1)
                    (paletteColor colorPalette 2) (paletteColor colorPalette 3) (paletteColor colorPalette 4) t
              in colors[i * 3 := Some (col_r finalColor), i * 3 + 1 := Some (col_g finalColor),
                        i * 3 + 2 := Some (col_b finalColor)])
         | None \<Rightarrow> colors[i * 3 := None, i * 3 + 1 := None, i * 3 + 2 := None])"

text \<open>
  The colour effect of \<^verbatim>\<open>ParticleSystem\<close> for \<open>N\<close> particles (\<^verbatim>\<open>PARTICLE_COUNT\<close>);
  \<open>mounted\<close> says whether \<^verbatim>\<open>pointsRef.current\<close> exists. The bounds stay infinite only for
  \<open>N = 0\<close>, where the second loop has nothing to colour.
\<close>

definition computeColors :: "bool \<Rightarrow> nat \<Rightarrow> Color list \<Rightarrow> real list \<Rightarrow> real option list \<Rightarrow> real option list" where
  "computeColors mounted N colorPalette targetPositions colors =
     (if \<not> mounted then colors
      else case scanBounds N targetPositions of
        (Some minY, Some maxY) \<Rightarrow>
          fold (colorStep colorPalette targetPositions minY (heightOf minY maxY)) [0..<N] colors
      | _ \<Rightarrow> colors)"

text \<open>
  The colour of particle \<open>i\<close> in a colour buffer (\<open>None\<close> when one of its channels is NaN),
  and the heights of a target buffer.
\<close>

definition particleColor :: "real option list \<Rightarrow> nat \<Rightarrow> Color option" where
  "particleColor colors i =
     (case (colors ! (i * 3), colors ! (i * 3 + 1), colors ! (i * 3 + 2)) of
        (Some r, Some g, Some b) \<Rightarrow> Some \<lparr>col_r = r, col_g = g, col_b = b\<rparr>
      | _ \<Rightarrow> None)"

definition heights :: "nat \<Rightarrow> real list \<Rightarrow> real set" where
  "heights N targetPositions = (\<lambda>k. targetPositions ! (k * 3 + 1)) ` {..<N}"

subsection \<open>The gradient as the specification words it\<close>

text \<open>
  Linear interpolation between two colours, and the piecewise-linear gradient over the
  breakpoints 0, 0.25, 0.5, 0.75, 1: in the band from \<open>k / 4\<close> to \<open>(k + 1) / 4\<close> (both ends
  included, the lowest such band taken) the colour is the mix of stops \<open>k\<close> and \<open>k + 1\<close> at
  the fractional position within the band.
\<close>

definition mix :: "Color \<Rightarrow> Color \<Rightarrow> real \<Rightarrow> Color" where
  "mix a b s = \<lparr>col_r = (1 - s) * col_r a + s * col_r b,
               col_g = (1 - s) * col_g a + s * col_g b,
               col_b = (1 - s) * col_b a + s * col_b b\<rparr>"

definition spec_gradient :: "Color list \<Rightarrow> real \<Rightarrow> Color" where
  "spec_gradient pal t =
     (if t \<le> 1 / 4 then mix (pal ! 0) (pal ! 1) ((t - 0) / (1 / 4))
      else if t \<le> 2 / 4 then mix (pal ! 1) (pal ! 2) ((t - 1 / 4) / (1 / 4))
      else if t \<le> 3 / 4 then mix (pal ! 2) (pal ! 3) ((t - 2 / 4) / (1 / 4))
      else mix (pal ! 3) (pal ! 4) ((t - 3 / 4) / (1 / 4)))"

definition clamp01 :: "real \<Rightarrow> real" where
  "clamp01 t = (if t < 0 then 0 else if t > 1 then 1 else t)"

text \<open>
  The colour the second pass computes for particle \<open>i\<close>, given the lower bound and a
  height other than 0.
\<close>

definition colorAt :: "Color list \<Rightarrow> real list \<Rightarrow> real \<Rightarrow> real \<Rightarrow> nat \<Rightarrow> Color" where
  "colorAt pal tp lo h i =
     gradientColor (paletteColor pal 0) (paletteColor pal 1) (paletteColor pal 2)
       (paletteColor pal 3) (paletteColor pal 4) (max 0 (min 1 ((tp ! (i * 3 + 1) - lo) / h)))"

text \<open>
  A palette and two small target buffers (two particles each).
\<close>

definition rgb :: "real \<Rightarrow> real \<Rightarrow> real \<Rightarrow> Color" where
  "rgb x y z = \<lparr>col_r = x, col_g = y, col_b = z\<rparr>"

definition pal5 :: "Color list" where
  "pal5 = [rgb 1 0 0, rgb 1 1 0, rgb 0 1 0, rgb 0 1 1, rgb 0 0 1]"

definition tp_two :: "real list" where
  "tp_two = [0, - 1, 0, 0, 3, 0]"

definition tp_flat :: "real list" where
  "tp_flat = [1, 5, 2, 3, 5, 4]"

text \<open>A colour buffer of two particles, all channels 0.\<close>

definition black2 :: "real option list" where
  "black2 = replicate 6 (Some 0)"

section \<open>ParticleSystem: the animation loop (part_000)\<close>

text \<open>
  One iteration of the particle loop of the \<^verbatim>\<open>useFrame\<close> callback: the three channels
  of particle \<open>i\<close> move towards the target by \<^verbatim>\<open>lerpFactor\<close>, then, if there is noise,
  the three noise terms are computed from the moved coordinates and added.
\<close>

definition morphStep :: "real \<Rightarrow> real \<Rightarrow> real \<Rightarrow> real list \<Rightarrow> nat \<Rightarrow> real list \<Rightarrow> real list" where
  "morphStep time speed noiseStrength tPositions i currentPositions =
     (let lerpFactor = 0.05;
          hasNoise = noiseStrength > 0.01;
          i3 = i * 3;
          cur = currentPositions;
          cur = cur[i3 := cur ! i3 + (tPositions ! i3 - cur ! i3) * lerpFactor];
          cur = cur[i3 + 1 := cur ! (i3 + 1) + (tPositions ! (i3 + 1) - cur ! (i3 + 1)) * lerpFactor];
          cur = cur[i3 + 2 := cur ! (i3 + 2) + (tPositions ! (i3 + 2) - cur ! (i3 + 2)) * lerpFactor]
      in if hasNoise then
           let nS = noiseStrength * 0.1;
               noiseX = sin (time * speed + cur ! (i3 + 1) * 0.5) * nS;
               noiseY = cos (time * speed + cur ! i3 * 0.5) * nS;
               noiseZ = sin (time * speed + cur ! (i3 + 2) * 0.5) * nS;
               cur = cur[i3 := cur ! i3 + noiseX];
               cur = cur[i3 + 1 := cur ! (i3 + 1) + noiseY];
               cur = cur[i3 + 2 := cur ! (i3 + 2) + noiseZ]
           in cur
         else cur)"

text \<open>
  The state the callback changes: the live position buffer (\<^verbatim>\<open>positions\<close>) and the
  rotation of the point cloud about the vertical axis.
\<close>

record ParticleState =
  ps_positions :: "real list"
  ps_rotation_y :: real

definition frameTick :: "bool \<Rightarrow> nat \<Rightarrow> real \<Rightarrow> real \<Rightarrow> real \<Rightarrow> real list \<Rightarrow> ParticleState \<Rightarrow> ParticleState" where
  "frameTick mounted N time speed noiseStrength targetPositions st =
     (if \<not> mounted then st
      else st\<lparr>ps_positions := fold (morphStep time speed noiseStrength targetPositions) [0..<N] (ps_positions st),
              ps_rotation_y := ps_rotation_y st + 0.001 * speed\<rparr>)"

subsection \<open>What a frame adds on top of the morph\<close>

text \<open>
  The coordinate of channel \<open>k\<close> after the morph step alone, and the perturbation of a
  frame: what the frame leaves in channel \<open>k\<close> minus the morphed coordinate.
\<close>

definition morphed :: "real list \<Rightarrow> real list \<Rightarrow> nat \<Rightarrow> real" where
  "morphed targetPositions cur k = cur ! k + (targetPositions ! k - cur ! k) * 0.05"

definition perturbation :: "nat \<Rightarrow> real \<Rightarrow> real \<Rightarrow> real \<Rightarrow> real list \<Rightarrow> real list \<Rightarrow> nat \<Rightarrow> real" where
  "perturbation N time speed noiseStrength targetPositions cur k =
     ps_positions (frameTick True N time speed noiseStrength targetPositions \<lparr>ps_positions = cur, ps_rotation_y = 0\<rparr>) ! k
       - morphed targetPositions cur k"

section \<open>The AI concept mapping (types.ts, geminiService.ts, Controls.tsx)\<close>

text \<open>
  \<^verbatim>\<open>ShapeType\<close>. The enumeration has six members; \<open>UNLISTED\<close> stands for any runtime
  value outside it, which a \<^verbatim>\<open>switch\<close> over the shape sends to its default branch.
\<close>

datatype ShapeType = SPHERE | FLOWER | HEART | TREE | SNOWMAN | GALAXY | UNLISTED





























section \<open>The shape generator (geometry.ts)\<close>

text \<open>
  \<^verbatim>\<open>Math.random\<close> is modelled by a source of numbers, read in order: a call returns the
  number at the current position and advances the position. The browser's source yields
  numbers from 0 (included) to 1 (excluded).
\<close>

type_synonym rng = "nat \<Rightarrow> real"

type_synonym vec3 = "real \<times> real \<times> real"

definition PARTICLE_COUNT :: nat where
  "PARTICLE_COUNT = 15000"

definition Math_random :: "rng \<Rightarrow> nat \<Rightarrow> real \<times> nat" where
  "Math_random src k = (src k, Suc k)"

definition random_between :: "rng \<Rightarrow> real \<Rightarrow> real \<Rightarrow> nat \<Rightarrow> real \<times> nat" where
  "random_between src lo hi k = (let (u, k) = Math_random src k in (u * (hi - lo) + lo, k))"

definition getSpherePoint :: "rng \<Rightarrow> real \<Rightarrow> nat \<Rightarrow> vec3 \<times> nat" where
  "getSpherePoint src r k =
     (let (u, k) = Math_random src k;
          theta = u * pi * 2;
          (u, k) = Math_random src k;
          phi = arccos (2 * u - 1);
          x = r * sin phi * cos theta;
          y = r * sin phi * sin theta;
          z = r * cos phi
      in ((x, y, z), k))"

subsection \<open>Heart: rejection sampling\<close>

text \<open>
  One attempt draws \<open>x\<close>, \<open>y\<close>, \<open>z\<close> in this order; \<open>heartAccept\<close> is the test of the
  heart formula; \<open>heartWrite\<close> stores the scaled point at particle \<open>idx\<close>. The buffer is
  a \<^verbatim>\<open>Float32Array\<close>: the product with the scale is a double, and the store rounds it to
  single precision. The sample and its test are taken over the real numbers.
\<close>

definition heartSample :: "rng \<Rightarrow> nat \<Rightarrow> vec3 \<times> nat" where
  "heartSample src k =
     (let (x, k) = random_between src (- 1.5) 1.5 k;
          (y, k) = random_between src (- 1.5) 1.5 k;
          (z, k) = random_between src (- 1.5) 1.5 k
      in ((x, y, z), k))"

definition heartAccept :: "vec3 \<Rightarrow> bool" where
  "heartAccept p =
     (case p of (x, y, z) \<Rightarrow>
        let x2 = x * x;
            y2 = y * y;
            z2 = z * z;
            y3 = y * y * y;
            a = x2 + 2.25 * z2 + y2 - 1
        in a ^ 3 - (x2 * y3) - (0.1125 * z2 * y3) \<le> 0)"

definition heartWrite :: "real list \<Rightarrow> nat \<Rightarrow> vec3 \<Rightarrow> real list" where
  "heartWrite positions idx p =
     (case p of (x, y, z) \<Rightarrow>
        let scale = 12
        in positions[idx * 3 := fround (dbl (x * scale)), idx * 3 + 1 := fround (dbl (y * scale)),
                     idx * 3 + 2 := fround (dbl (z * scale))])"

text \<open>
  The sampling loop: it runs while particles are missing and attempts are left, and
  returns the number of particles placed, the buffer and the position in the source.
\<close>

function heartLoop :: "rng \<Rightarrow> nat \<Rightarrow> nat \<Rightarrow> nat \<Rightarrow> nat \<Rightarrow> real list \<Rightarrow> nat \<Rightarrow> nat \<times> real list \<times> nat" where
  "heartLoop src N maxAttempts idx attempt positions k =
     (if idx < N \<and> attempt < maxAttempts then
        (if heartAccept (fst (heartSample src k)) then
           heartLoop src N maxAttempts (idx + 1) (attempt + 1)
             (heartWrite positions idx (fst (heartSample src k))) (snd (heartSample src k))
         else
           heartLoop src N maxAttempts idx (attempt + 1) positions (snd (heartSample src k)))
      else (idx, positions, k))"
  by pat_completeness auto
termination
  by (relation "measure (\<lambda>(src, N, maxAttempts, idx, attempt, positions, k). maxAttempts - attempt)") auto

text \<open>
  The fallback fill: the particles that are still missing go to the origin (the number 0
  is stored as it is).
\<close>

function heartFill :: "nat \<Rightarrow> nat \<Rightarrow> real list \<Rightarrow> real list" where
  "heartFill N idx positions =
     (if idx < N then
        heartFill N (idx + 1) (positions[idx * 3 := 0, idx * 3 + 1 := 0, idx * 3 + 2 := 0])
      else positions)"
  by pat_completeness auto
termination
  by (relation "measure (\<lambda>(N, idx, positions). N - idx)") auto

subsection \<open>Flower\<close>

text \<open>
  A particle is a stem, a stamen or a petal point, by the first draw. A call of
  \<^verbatim>\<open>Math.random\<close> behind \<^verbatim>\<open>&&\<close> happens only if the tests before it hold.
  \<^verbatim>\<open>a % b\<close> on numbers is the remainder of the division truncated towards zero, and
  \<^verbatim>\<open>Math.pow(u, c)\<close> for \<open>u\<close> from 0 on and a positive \<open>c\<close> is \<open>u powr c\<close>. The record
  \<^verbatim>\<open>layerConfig\<close> has its fields \<^verbatim>\<open>count\<close>, \<^verbatim>\<open>tilt\<close>, \<^verbatim>\<open>length\<close> and \<^verbatim>\<open>width\<close> suffixed
  with \<open>_l\<close>; the value it is initialised with is overwritten in each of the three
  branches of the layer selection.
\<close>

definition js_rem :: "real \<Rightarrow> real \<Rightarrow> real" where
  "js_rem a b = a - b * real_of_int (if a / b < 0 then \<lceil>a / b\<rceil> else \<lfloor>a / b\<rfloor>)"

record layerConfig =
  count_l :: real
  radiusOffset :: real
  tilt_l :: real
  length_l :: real
  width_l :: real
  yBase :: real
  inwardCurl :: real

definition flowerStem :: "rng \<Rightarrow> nat \<Rightarrow> vec3 \<times> nat" where
  "flowerStem src k =
     (let (t, k) = Math_random src k;
          yPos = - 18 + t * 18;
          r = 0.5 + (1 - t) * 0.4;
          (u, k) = Math_random src k;
          theta = u * pi * 2;
          curveX = sin (t * pi) * 1.5;
          curveZ = cos (t * pi * 0.5) * 0.5;
          x = cos theta * r + curveX;
          z = sin theta * r + curveZ;
          y = yPos;
          (u, k) = Math_random src k;
          (x, z) = (if u < 0.1 then
                      let thornLen = 0.5 in (x + cos theta * thornLen, z + sin theta * thornLen)
                    else (x, z))
      in if t > 0.3 \<and> t < 0.7 then
           let (u, k) = Math_random src k
           in if u > 0.95 then
                let (leafU, k) = Math_random src k;
                    (w, k) = Math_random src k;
                    leafV = (w - 0.5) * 2;
                    side = (if yPos < - 9 then 1 else - 1);
                    lLen = 8;
                    lWid = 3 * sin (leafU * pi);
                    lx = side * leafU * lLen;
                    ly = leafU * 3 + (leafV * lWid * 0.2);
                    lz = leafV * lWid;
                    ly = ly - (leafU * leafU) * 4
                in ((x + lx, y + ly, z + lz), k)
              else ((x, y, z), k)
         else ((x, y, z), k))"

definition flowerStamen :: "rng \<Rightarrow> nat \<Rightarrow> nat \<Rightarrow> vec3 \<times> nat" where
  "flowerStamen src i k =
     (let (u, k) = Math_random src k;
          r = 1.5 * sqrt u;
          theta = real i * 2.39996;
          (heightBias, k) = Math_random src k;
          domeY = sqrt (1 - (r / 1.5) * (r / 1.5)) * 2.0 * heightBias;
          x = r * cos theta;
          z = r * sin theta;
          y = domeY + 1.0
      in ((x, y, z), k))"

definition flowerPetal :: "rng \<Rightarrow> nat \<Rightarrow> vec3 \<times> nat" where
  "flowerPetal src k =
     (let (petalSeed, k) = Math_random src k;
          layer =
            (if petalSeed < 0.30 then
               \<lparr>count_l = 5, radiusOffset = 0.5, tilt_l = 0.1, length_l = 9, width_l = 4.0, yBase = 0.5,
                inwardCurl = 1.2\<rparr>
             else if petalSeed < 0.65 then
               \<lparr>count_l = 7, radiusOffset = 1.2, tilt_l = 0.25, length_l = 11, width_l = 5.5, yBase = 0.2,
                inwardCurl = 1.0\<rparr>
             else
               \<lparr>count_l = 9, radiusOffset = 2.0, tilt_l = 0.4, length_l = 12, width_l = 7.0, yBase = - 0.5,
                inwardCurl = 0.8\<rparr>);
          (u, k) = Math_random src k;
          petalIdx = real_of_int \<lfloor>u * count_l layer\<rfloor>;
          anglePerPetal = (pi * 2) / count_l layer;
          angleOffset = js_rem (length_l layer) 2 * (anglePerPetal / 2);
          baseAngle = petalIdx * anglePerPetal + angleOffset;
          (u, k) = Math_random src k;
          (w, k) = Math_random src k;
          v = (w - 0.5) * 2;
          widthProfile = sin ((u powr 0.7) * pi) * width_l layer;
          cupping = (v * v) * 2.5 * u;
          lx = v * widthProfile;
          ly = u * length_l layer;
          lz = cupping;
          effectiveTilt = tilt_l layer - ((u powr 1.5) * inwardCurl layer);
          cosT = cos effectiveTilt;
          sinT = sin effectiveTilt;
          rx = lx;
          ry = ly * cosT - lz * sinT;
          rz = ly * sinT + lz * cosT;
          rz = rz + radiusOffset layer;
          ry = ry + yBase layer;
          cosA = cos baseAngle;
          sinA = sin baseAngle;
          x = rx * cosA - rz * sinA;
          z = rx * sinA + rz * cosA;
          y = ry
      in ((x, y, z), k))"

definition flowerPoint :: "rng \<Rightarrow> nat \<Rightarrow> nat \<Rightarrow> vec3 \<times> nat" where
  "flowerPoint src i k =
     (let (seed, k) = Math_random src k
      in if seed < 0.10 then flowerStem src k
         else if seed < 0.25 then flowerStamen src i k
         else flowerPetal src k)"

subsection \<open>Tree, snowman, galaxy and the default\<close>

text \<open>
  Each branch draws its numbers in the order of the source text. The hat and the face of
  the snowman are the two nested choices of its branch; \<open>defaultPoint\<close> is the
  \<^verbatim>\<open>default\<close> case of the \<^verbatim>\<open>switch\<close>, a point of the cube from -10 to 10.
\<close>

definition treePoint :: "rng \<Rightarrow> nat \<Rightarrow> vec3 \<times> nat" where
  "treePoint src k =
     (let (p, k) = Math_random src k
      in if p < 0.1 then
           let (x, k) = random_between src (- 1) 1 k;
               (z, k) = random_between src (- 1) 1 k;
               (y, k) = random_between src (- 10) 0 k
           in ((x, y, z), k)
         else
           let (u, k) = Math_random src k;
               h = u * 25;
               maxR = 10 * (1 - h / 25);
               (u, k) = Math_random src k;
               theta = u * pi * 2;
               (u, k) = Math_random src k;
               r = u * maxR;
               x = r * cos theta;
               z = r * sin theta;
               y = h - 5
           in ((x, y, z), k))"

definition snowmanHat :: "rng \<Rightarrow> real \<Rightarrow> real \<Rightarrow> nat \<Rightarrow> vec3 \<times> nat" where
  "snowmanHat src headY headRadius k =
     (let (hatPart, k) = Math_random src k;
          hatBaseY = headY + headRadius * 0.8
      in if hatPart < 0.4 then
           let (u, k) = Math_random src k;
               r = sqrt u * 7;
               (u, k) = Math_random src k;
               theta = u * pi * 2;
               x = r * cos theta;
               z = r * sin theta;
               (j, k) = random_between src (- 0.2) 0.2 k;
               y = hatBaseY + j
           in ((x, y, z), k)
         else
           let (u, k) = Math_random src k;
               r = sqrt u * 4;
               (u, k) = Math_random src k;
               theta = u * pi * 2;
               (u, k) = Math_random src k;
               h = u * 7;
               x = r * cos theta;
               z = r * sin theta;
               y = hatBaseY + h
           in ((x, y, z), k))"

definition snowmanFace :: "rng \<Rightarrow> real \<Rightarrow> real \<Rightarrow> nat \<Rightarrow> vec3 \<times> nat" where
  "snowmanFace src headY headRadius k =
     (let (feature, k) = Math_random src k
      in if feature < 0.3 then
           let (u, k) = Math_random src k;
               eyeSide = (if u > 0.5 then 1 else - 1);
               (p, k) = getSpherePoint src 0.4 k;
               x = (eyeSide * 1.8) + fst p;
               y = (headY + 1.5) + fst (snd p);
               z = (sqrt (headRadius * headRadius - 1.8 * 1.8 - 1.5 * 1.5) + 0.5) + snd (snd p)
           in ((x, y, z), k)
         else if feature < 0.6 then
           let noseBaseRadius = 0.5;
               noseLength = 3.5;
               (t, k) = Math_random src k;
               currentR = noseBaseRadius * (1 - t);
               (u, k) = Math_random src k;
               theta = u * pi * 2;
               x = currentR * cos theta;
               y = headY + currentR * sin theta;
               z = headRadius + (t * noseLength)
           in ((x, y, z), k)
         else
           let (t, k) = random_between src (- 2) 2 k;
               x = t;
               curveY = (t * t) * 0.15;
               (j, k) = random_between src (- 0.1) 0.1 k;
               y = (headY - 1.5) + curveY + j;
               (d, k) = random_between src 0 0.2 k;
               z = sqrt (headRadius * headRadius - x * x - 2 * 2) + d
           in ((x, y, z), k))"

definition snowmanPoint :: "rng \<Rightarrow> nat \<Rightarrow> vec3 \<times> nat" where
  "snowmanPoint src k =
     (let (rand, k) = Math_random src k;
          headY = 7;
          headRadius = 5.5
      in if rand < 0.45 then
           let (p, k) = getSpherePoint src 9 k
           in ((fst p, fst (snd p) - 6, snd (snd p)), k)
         else if rand < 0.70 then
           let (p, k) = getSpherePoint src headRadius k
           in ((fst p, fst (snd p) + headY, snd (snd p)), k)
         else if rand < 0.85 then snowmanHat src headY headRadius k
         else if rand < 0.90 then
           let (u, k) = Math_random src k;
               side = (if u > 0.5 then 1 else - 1);
               (t, k) = Math_random src k;
               startX = side * 7;
               endX = side * 16;
               x = startX + (endX - startX) * t;
               y = 0 + (t * 4);
               (z, k) = random_between src (- 1) 1 k
           in ((x, y, z), k)
         else snowmanFace src headY headRadius k)"

definition galaxyPoint :: "rng \<Rightarrow> nat \<Rightarrow> nat \<Rightarrow> nat \<Rightarrow> vec3 \<times> nat" where
  "galaxyPoint src N i k =
     (let planetRatio = 0.40
      in if real i < real N * planetRatio then
           let r = 10 in getSpherePoint src r k
         else
           let (u, k) = Math_random src k;
               angle = u * pi * 2;
               (r, k) = random_between src 12 16 k;
               x = cos angle * r;
               z = sin angle * r;
               (y, k) = random_between src (- 0.2) 0.2 k;
               tilt = 20 * (pi / 180);
               tiltedY = y * cos tilt - z * sin tilt;
               tiltedZ = y * sin tilt + z * cos tilt;
               y = tiltedY;
               z = tiltedZ
           in ((x, y, z), k))"

definition defaultPoint :: "rng \<Rightarrow> nat \<Rightarrow> vec3 \<times> nat" where
  "defaultPoint src k =
     (let (x, k) = random_between src (- 10) 10 k;
          (y, k) = random_between src (- 10) 10 k;
          (z, k) = random_between src (- 10) 10 k
      in ((x, y, z), k))"

subsection \<open>The generator\<close>

text \<open>
  The \<^verbatim>\<open>switch\<close> of the particle loop: the point of particle \<open>i\<close>, and the store of its
  coordinates into the \<^verbatim>\<open>Float32Array\<close>, which rounds them to single precision.
\<close>

definition shapePoint :: "ShapeType \<Rightarrow> rng \<Rightarrow> nat \<Rightarrow> nat \<Rightarrow> nat \<Rightarrow> vec3 \<times> nat" where
  "shapePoint type src N i k =
     (case type of
        SPHERE \<Rightarrow> getSpherePoint src 15 k
      | FLOWER \<Rightarrow> flowerPoint src i k
      | TREE \<Rightarrow> treePoint src k
      | SNOWMAN \<Rightarrow> snowmanPoint src k
      | GALAXY \<Rightarrow> galaxyPoint src N i k
      | _ \<Rightarrow> defaultPoint src k)"

definition shapeStep :: "ShapeType \<Rightarrow> rng \<Rightarrow> nat \<Rightarrow> nat \<Rightarrow> real list \<times> nat \<Rightarrow> real list \<times> nat" where
  "shapeStep type src N i st =
     (case st of (positions, k) \<Rightarrow>
        case shapePoint type src N i k of ((x, y, z), k) \<Rightarrow>
          (positions[i * 3 := fround x, i * 3 + 1 := fround y, i * 3 + 2 := fround z], k))"

text \<open>
  The body of \<^verbatim>\<open>generateParticles\<close> on a buffer \<open>positions\<close>, for \<open>N\<close> particles, reading
  the source from position \<open>k\<close>; it returns the buffer and the position reached.
\<close>

definition fillParticles :: "nat \<Rightarrow> ShapeType \<Rightarrow> rng \<Rightarrow> nat \<Rightarrow> real list \<Rightarrow> real list \<times> nat" where
  "fillParticles N type src k positions =
     (if type = HEART then
        let maxAttempts = N * 20
        in case heartLoop src N maxAttempts 0 0 positions k of
             (idx, positions, k) \<Rightarrow> (heartFill N idx positions, k)
      else fold (shapeStep type src N) [0..<N] (positions, k))"

text \<open>
  \<^verbatim>\<open>generateParticles\<close> for \<open>N\<close> particles: a fresh \<^verbatim>\<open>Float32Array\<close> holds zeros. The
  source fixes \<open>N\<close> to \<^verbatim>\<open>PARTICLE_COUNT\<close>.
\<close>

definition generateParticlesN :: "nat \<Rightarrow> ShapeType \<Rightarrow> rng \<Rightarrow> nat \<Rightarrow> real list \<times> nat" where
  "generateParticlesN N type src k = fillParticles N type src k (replicate (N * 3) 0)"

definition generateParticles :: "ShapeType \<Rightarrow> rng \<Rightarrow> nat \<Rightarrow> real list \<times> nat" where
  "generateParticles type src k = generateParticlesN PARTICLE_COUNT type src k"

subsection \<open>Observations on a position buffer\<close>

text \<open>
  The point of particle \<open>j\<close> in a flat buffer; the implicit heart inequality and the cube
  of the specification; the number of particles the sampling loop of the heart places
  in a fresh buffer; the range of \<^verbatim>\<open>Math.random\<close>; the point that the buffer keeps of a
  sample of the heart (\<open>stored12\<close>); and that a point, divided by 12, is within \<open>2\<^sup>-\<^sup>2\<^sup>3\<close> of a
  sample in every coordinate (\<open>close12\<close>).
\<close>

definition particle :: "real list \<Rightarrow> nat \<Rightarrow> vec3" where
  "particle ps j = (ps ! (j * 3), ps ! (j * 3 + 1), ps ! (j * 3 + 2))"



definition heartPlaced :: "nat \<Rightarrow> rng \<Rightarrow> nat \<Rightarrow> nat" where
  "heartPlaced N src k = fst (heartLoop src N (N * 20) 0 0 (replicate (N * 3) 0) k)"




text \<open>
  Four sources for small runs: one that always yields 1/4, one that yields 63/64 three
  times and 5/8 from then on, one that always yields 0.99, and one whose first sample
  lies just inside the heart, at its edge.
\<close>

definition src_quarter :: rng where
  "src_quarter n = 1 / 4"


definition src_corner :: rng where
  "src_corner n = 0.99"


section \<open>Properties of the rounding\<close>

lemma rint_error: "\<bar>of_int (rint y) - y\<bar> \<le> 1 / 2"
  unfolding rint_def Let_def by (auto simp add: abs_if) linarith+

lemma rint_nonneg: "0 \<le> y \<Longrightarrow> 0 \<le> rint y"
  unfolding rint_def Let_def by auto

lemma rint_of_int: "rint (of_int k) = k"
  unfolding rint_def Let_def by simp

lemma rint_le: "y \<le> of_int k \<Longrightarrow> rint y \<le> k"
proof -
  assume a: "y \<le> of_int k"
  show ?thesis
  proof (cases "y = of_int k")
    case True
    then show ?thesis by (simp add: rint_of_int)
  next
    case False
    then have "y < of_int k" using a by simp
    then have "\<lfloor>y\<rfloor> < k" by (simp add: floor_less_iff)
    then show ?thesis unfolding rint_def Let_def by auto
  qed
qed


lemma round_nearest_zero: "round_nearest p emin 0 = 0"
  by (simp add: round_nearest_def)

lemma round_nearest_nonneg: "0 \<le> x \<Longrightarrow> 0 \<le> round_nearest p emin x"
  unfolding round_nearest_def Let_def by (auto intro!: mult_nonneg_nonneg rint_nonneg)

lemma floor_log2_bounds:
  assumes "x \<noteq> 0"
  shows "2 powr of_int \<lfloor>log 2 \<bar>x\<bar>\<rfloor> \<le> \<bar>x\<bar>" "\<bar>x\<bar> < 2 powr (of_int \<lfloor>log 2 \<bar>x\<bar>\<rfloor> + 1)"
proof -
  have p: "0 < \<bar>x\<bar>" using assms by simp
  have "of_int \<lfloor>log 2 \<bar>x\<bar>\<rfloor> \<le> log 2 \<bar>x\<bar>" by simp
  then have "2 powr of_int \<lfloor>log 2 \<bar>x\<bar>\<rfloor> \<le> 2 powr log 2 \<bar>x\<bar>" by simp
  then show "2 powr of_int \<lfloor>log 2 \<bar>x\<bar>\<rfloor> \<le> \<bar>x\<bar>" using p by simp
  have "log 2 \<bar>x\<bar> < of_int \<lfloor>log 2 \<bar>x\<bar>\<rfloor> + 1" by linarith
  then have "2 powr log 2 \<bar>x\<bar> < 2 powr (of_int \<lfloor>log 2 \<bar>x\<bar>\<rfloor> + 1)" by simp
  then show "\<bar>x\<bar> < 2 powr (of_int \<lfloor>log 2 \<bar>x\<bar>\<rfloor> + 1)" using p by simp
qed

lemma round_nearest_error:
  "\<bar>round_nearest p emin x - x\<bar> \<le> \<bar>x\<bar> * 2 powr (- real p) + 2 powr (of_int emin - real p)"
proof (cases "x = 0")
  case True
  then show ?thesis by (simp add: round_nearest_def)
next
  case False
  define e where "e = max \<lfloor>log 2 \<bar>x\<bar>\<rfloor> emin"
  define ulp where "ulp = 2 powr (of_int e - real p + 1)"
  have u: "0 < ulp" by (simp add: ulp_def)
  have r: "round_nearest p emin x = ulp * of_int (rint (x / ulp))"
    using False by (simp add: round_nearest_def Let_def e_def ulp_def)
  have "\<bar>ulp * of_int (rint (x / ulp)) - x\<bar> = ulp * \<bar>of_int (rint (x / ulp)) - x / ulp\<bar>"
  proof -
    have "ulp * of_int (rint (x / ulp)) - x = ulp * (of_int (rint (x / ulp)) - x / ulp)"
      using u by (simp add: algebra_simps)
    then show ?thesis using u by (simp add: abs_mult)
  qed
  also have "\<dots> \<le> ulp * (1 / 2)"
    using u rint_error [of "x / ulp"] by (intro mult_left_mono) auto
  also have "\<dots> = 2 powr (of_int e - real p)"
    by (simp add: ulp_def powr_add)
  finally have err: "\<bar>round_nearest p emin x - x\<bar> \<le> 2 powr (of_int e - real p)" unfolding r .
  show ?thesis
  proof (cases "\<lfloor>log 2 \<bar>x\<bar>\<rfloor> \<le> emin")
    case True
    then have "e = emin" by (simp add: e_def)
    then have "\<bar>round_nearest p emin x - x\<bar> \<le> 2 powr (of_int emin - real p)" using err by simp
    moreover have "0 \<le> \<bar>x\<bar> * 2 powr (- real p)" by simp
    ultimately show ?thesis by linarith
  next
    case False
    then have e: "e = \<lfloor>log 2 \<bar>x\<bar>\<rfloor>" by (simp add: e_def)
    have "2 powr (of_int e - real p) = 2 powr of_int e * 2 powr (- real p)"
      by (simp add: powr_diff powr_minus divide_inverse)
    also have "\<dots> \<le> \<bar>x\<bar> * 2 powr (- real p)"
      unfolding e using floor_log2_bounds(1) [OF \<open>x \<noteq> 0\<close>] by (intro mult_right_mono) auto
    finally have "\<bar>round_nearest p emin x - x\<bar> \<le> \<bar>x\<bar> * 2 powr (- real p)" using err by linarith
    moreover have "0 \<le> 2 powr (of_int emin - real p)" by simp
    ultimately show ?thesis by linarith
  qed
qed


lemma floor_log2_eq:
  assumes "2 powr of_int e \<le> \<bar>x\<bar>" and "\<bar>x\<bar> < 2 powr (of_int e + 1)"
  shows "\<lfloor>log 2 \<bar>x\<bar>\<rfloor> = e"
proof -
  have p: "0 < \<bar>x\<bar>" using assms(1) by (smt (verit) powr_gt_zero)
  have "of_int e \<le> log 2 \<bar>x\<bar>" using assms(1) p by (simp add: le_log_iff)
  moreover have "log 2 \<bar>x\<bar> < of_int e + 1" using assms(2) p by (simp add: log_less_iff)
  ultimately show ?thesis by linarith
qed

lemma round_nearest_binade:
  assumes "2 powr of_int e \<le> \<bar>x\<bar>" and "\<bar>x\<bar> < 2 powr (of_int e + 1)" and "emin \<le> e"
  shows "round_nearest p emin x
       = 2 powr (of_int e - real p + 1) * of_int (rint (x / 2 powr (of_int e - real p + 1)))"
proof -
  have "x \<noteq> 0" using assms(1) by (smt (verit) powr_gt_zero abs_zero)
  moreover have "max \<lfloor>log 2 \<bar>x\<bar>\<rfloor> emin = e"
    using floor_log2_eq [OF assms(1,2)] assms(3) by simp
  ultimately show ?thesis by (simp add: round_nearest_def Let_def)
qed

lemma round_nearest_ge1:
  assumes "2 ^ n \<le> \<bar>x\<bar>" and "\<bar>x\<bar> < 2 ^ (n + 1)" and "emin \<le> int n" and "n < p"
  shows "round_nearest p emin x = of_int (rint (x * 2 ^ (p - 1 - n))) / 2 ^ (p - 1 - n)"
proof -
  have a: "2 powr of_int (int n) \<le> \<bar>x\<bar>" using assms(1) by (simp add: powr_realpow)
  have "2 powr (of_int (int n) + 1) = (2::real) ^ (n + 1)"
    by (simp add: powr_add powr_realpow)
  then have b: "\<bar>x\<bar> < 2 powr (of_int (int n) + 1)" using assms(2) by simp
  have "of_int (int n) - real p + 1 = - real (p - 1 - n)" using assms(4) by simp
  then have "2 powr (of_int (int n) - real p + 1) = 2 powr (- real (p - 1 - n))" by (simp only:)
  also have "\<dots> = 1 / 2 ^ (p - 1 - n)"
    by (simp add: powr_minus powr_realpow divide_inverse del: of_nat_diff)
  finally have u: "2 powr (of_int (int n) - real p + 1) = 1 / 2 ^ (p - 1 - n)" .
  show ?thesis
    unfolding round_nearest_binade [OF a b assms(3)] u by simp
qed

lemma rint_frac:
  assumes "of_int f \<le> y" and "y < of_int f + 1"
  shows "y - of_int f < 1 / 2 \<Longrightarrow> rint y = f" "y - of_int f > 1 / 2 \<Longrightarrow> rint y = f + 1"
proof -
  have fl: "\<lfloor>y\<rfloor> = f" using assms by linarith
  show "y - of_int f < 1 / 2 \<Longrightarrow> rint y = f" unfolding rint_def Let_def fl by simp
  show "y - of_int f > 1 / 2 \<Longrightarrow> rint y = f + 1" unfolding rint_def Let_def fl by simp
qed

lemma fround_minus5: "fround (- 5) = - 5"
proof -
  have "fround (- 5) = of_int (rint (- 5 * 2 ^ (24 - 1 - 2))) / 2 ^ (24 - 1 - 2)"
    unfolding fround_def by (rule round_nearest_ge1) simp_all
  also have "- 5 * 2 ^ (24 - 1 - 2) = (of_int (- 10485760) :: real)" by simp
  also have "of_int (rint (of_int (- 10485760))) / 2 ^ (24 - 1 - 2) = (- 5 :: real)"
    unfolding rint_of_int by simp
  finally show ?thesis .
qed


lemma dbl_three: "dbl 3 = 3"
proof -
  have "dbl 3 = of_int (rint (3 * 2 ^ (53 - 1 - 1))) / 2 ^ (53 - 1 - 1)"
    unfolding dbl_def by (rule round_nearest_ge1) simp_all
  also have "3 * 2 ^ (53 - 1 - 1) = (of_int 6755399441055744 :: real)" by simp
  also have "of_int (rint (of_int 6755399441055744)) / 2 ^ (53 - 1 - 1) = (3 :: real)"
    unfolding rint_of_int by simp
  finally show ?thesis .
qed


lemma round_nearest_one:
  assumes "emin \<le> 0" and "0 < p"
  shows "round_nearest p emin 1 = 1"
proof -
  have "round_nearest p emin 1 = of_int (rint (1 * 2 ^ (p - 1 - 0))) / 2 ^ (p - 1 - 0)"
    using assms by (intro round_nearest_ge1) simp_all
  also have "(1::real) * 2 ^ (p - 1 - 0) = of_int (2 ^ (p - 1))" by simp
  also have "of_int (rint (of_int (2 ^ (p - 1)))) / 2 ^ (p - 1 - 0) = (1::real)"
    unfolding rint_of_int by simp
  finally show ?thesis .
qed

lemma round_nearest_unit:
  assumes "0 \<le> x" and "x \<le> 1" and "emin < 0" and "0 < p"
  shows "round_nearest p emin x \<le> 1"
proof -
  consider "x = 0" | "x = 1" | "0 < x" "x < 1" using assms(1,2) by linarith
  then show ?thesis
  proof cases
    case 1
    then show ?thesis by (simp add: round_nearest_def)
  next
    case 2
    then show ?thesis using round_nearest_one [of emin p] assms by simp
  next
    case 3
    define e where "e = max \<lfloor>log 2 \<bar>x\<bar>\<rfloor> emin"
    define ulp where "ulp = 2 powr (of_int e - real p + 1)"
    have u: "0 < ulp" by (simp add: ulp_def)
    have r: "round_nearest p emin x = ulp * of_int (rint (x / ulp))"
      using 3 by (simp add: round_nearest_def Let_def e_def ulp_def)
    have "log 2 \<bar>x\<bar> < 0" using 3 by simp
    then have "\<lfloor>log 2 \<bar>x\<bar>\<rfloor> < 0" by linarith
    then have e0: "e < 0" using assms(3) by (simp add: e_def)
    have "\<bar>x\<bar> < 2 powr (of_int \<lfloor>log 2 \<bar>x\<bar>\<rfloor> + 1)"
      using floor_log2_bounds(2) [of x] 3 by simp
    also have "\<dots> \<le> 2 powr (of_int e + 1)" by (simp add: e_def)
    finally have xe: "x < 2 powr (of_int e + 1)" using 3 by simp
    have "2 powr (of_int e + 1) = ulp * 2 powr real p"
      by (simp add: ulp_def flip: powr_add)
    then have "x / ulp < 2 powr real p" using xe u by (simp add: field_simps)
    then have "x / ulp \<le> of_int (2 ^ p)" by (simp add: powr_realpow)
    then have "rint (x / ulp) \<le> 2 ^ p" by (rule rint_le)
    then have "(of_int (rint (x / ulp)) :: real) \<le> of_int (2 ^ p)" by (simp only: of_int_le_iff)
    then have "ulp * of_int (rint (x / ulp)) \<le> ulp * 2 powr real p"
      using u by (simp add: powr_realpow)
    also have "\<dots> = 2 powr (of_int e + 1)" by (simp add: ulp_def flip: powr_add)
    also have "\<dots> \<le> 2 powr 0" using e0 by (intro powr_mono) simp_all
    finally show ?thesis unfolding r by simp
  qed
qed

lemma powr_neg_nat: "(2::real) powr (- real k) = 1 / 2 ^ k"
  by (simp add: powr_minus powr_realpow divide_inverse)

lemma dbl_error: "\<bar>dbl x - x\<bar> \<le> \<bar>x\<bar> / 2 ^ 53 + 1 / 2 ^ 1075"
proof -
  have "of_int (- 1022) - real 53 = - real 1075" by simp
  then have b: "2 powr (of_int (- 1022) - real 53) = 1 / 2 ^ 1075"
    by (simp only: powr_neg_nat)
  have "\<bar>x\<bar> * (1 / 2 ^ 53) = \<bar>x\<bar> / 2 ^ 53" by (simp only: times_divide_eq_right mult_1_right)
  then show ?thesis
    using round_nearest_error [of 53 "- 1022" x] unfolding dbl_def powr_neg_nat b by (simp only:)
qed


lemma dbl_unit: "0 \<le> x \<Longrightarrow> x \<le> 1 \<Longrightarrow> 0 \<le> dbl x \<and> dbl x \<le> 1"
  unfolding dbl_def by (simp add: round_nearest_nonneg round_nearest_unit)

lemma dbl_nonneg: "0 \<le> x \<Longrightarrow> 0 \<le> dbl x"
  unfolding dbl_def by (rule round_nearest_nonneg)

lemma dbl_zero: "dbl 0 = 0"
  by (simp add: dbl_def round_nearest_def)


lemma round_nearest_exact:
  assumes k: "\<bar>k\<bar> < 2 ^ p" and j: "emin \<le> int p - 1 - int j"
  shows "round_nearest p emin (of_int k / 2 ^ j) = of_int k / 2 ^ j"
proof (cases "k = 0")
  case True
  then show ?thesis by (simp add: round_nearest_def)
next
  case False
  define x :: real where "x = of_int k / 2 ^ j"
  define e where "e = max \<lfloor>log 2 \<bar>x\<bar>\<rfloor> emin"
  have x0: "x \<noteq> 0" using False by (simp add: x_def)
  have ax: "\<bar>x\<bar> = of_int \<bar>k\<bar> / 2 ^ j" by (simp add: x_def)
  have "(of_int \<bar>k\<bar> :: real) < of_int (2 ^ p)" using k by (simp only: of_int_less_iff)
  then have "\<bar>x\<bar> < 2 ^ p / 2 ^ j" unfolding ax by (simp add: divide_strict_right_mono)
  also have "\<dots> = 2 powr (real p - real j)" by (simp add: powr_diff powr_realpow)
  finally have "log 2 \<bar>x\<bar> < real p - real j" using x0 by (simp add: log_less_iff)
  then have "log 2 \<bar>x\<bar> < of_int (int p - int j)" by simp
  then have "\<lfloor>log 2 \<bar>x\<bar>\<rfloor> < int p - int j" by (simp only: floor_less_iff)
  then have e: "e \<le> int p - 1 - int j" using j by (simp add: e_def)
  define m where "m = nat (int p - 1 - int j - e)"
  have m: "int m = int p - 1 - int j - e" using e by (simp add: m_def)
  define ulp :: real where "ulp = 2 powr (of_int e - real p + 1)"
  have u0: "0 < ulp" by (simp add: ulp_def)
  have "of_int e - real p + 1 = - real j - real m"
  proof -
    have "real_of_int (int m) = real_of_int (int p - 1 - int j - e)" by (simp only: m)
    then show ?thesis by simp
  qed
  then have "ulp = 2 powr (- real j - real m)" by (simp add: ulp_def)
  also have "\<dots> = 1 / (2 ^ j * 2 ^ m)"
    by (simp add: powr_diff powr_minus powr_realpow divide_simps)
  finally have ulp: "ulp = 1 / (2 ^ j * 2 ^ m)" .
  have q: "x / ulp = of_int (k * 2 ^ m)" by (simp add: x_def ulp)
  have "round_nearest p emin x = ulp * of_int (rint (x / ulp))"
    using x0 by (simp add: round_nearest_def Let_def e_def ulp_def)
  also have "\<dots> = ulp * of_int (k * 2 ^ m)" unfolding q rint_of_int ..
  also have "\<dots> = x" by (simp add: x_def ulp)
  finally show ?thesis by (simp add: x_def)
qed

lemma dbl_exact:
  assumes "\<bar>k\<bar> < 2 ^ 53" and "j \<le> 1074"
  shows "dbl (of_int k / 2 ^ j) = of_int k / 2 ^ j"
  unfolding dbl_def using assms by (intro round_nearest_exact) simp_all


lemma round_nearest_lt1:
  assumes "1 / 2 ^ m \<le> \<bar>x\<bar>" and "\<bar>x\<bar> < 2 / 2 ^ m" and "emin \<le> - int m" and "0 < p"
  shows "round_nearest p emin x = of_int (rint (x * 2 ^ (p - 1 + m))) / 2 ^ (p - 1 + m)"
proof -
  have "real_of_int (- int m) = - real m" by simp
  then have ea: "(2::real) powr of_int (- int m) = 1 / 2 ^ m" by (simp only: powr_neg_nat)
  have "(2::real) powr (of_int (- int m) + 1) = 2 powr (1 - real m)" by simp
  also have "\<dots> = 2 powr 1 / 2 powr real m" by (rule powr_diff)
  also have "\<dots> = 2 / 2 ^ m" by (simp add: powr_realpow)
  finally have eb: "(2::real) powr (of_int (- int m) + 1) = 2 / 2 ^ m" .
  have a: "2 powr of_int (- int m) \<le> \<bar>x\<bar>" unfolding ea by (rule assms(1))
  have b: "\<bar>x\<bar> < 2 powr (of_int (- int m) + 1)" unfolding eb by (rule assms(2))
  have "of_int (- int m) - real p + 1 = - real (p - 1 + m)" using assms(4) by simp
  then have u: "2 powr (of_int (- int m) - real p + 1) = 1 / 2 ^ (p - 1 + m)"
    by (simp only: powr_neg_nat)
  show ?thesis
    unfolding round_nearest_binade [OF a b assms(3)] u by simp
qed

lemma rint_tie:
  assumes "y = of_int f + 1 / 2"
  shows "rint y = (if even f then f else f + 1)"
proof -
  have fl: "\<lfloor>y\<rfloor> = f" using assms by linarith
  show ?thesis unfolding rint_def Let_def fl using assms by simp
qed

lemma dbl_ge1:
  assumes "2 ^ n \<le> \<bar>x\<bar>" and "\<bar>x\<bar> < 2 ^ (n + 1)" and "n < 53" and "rint (x * 2 ^ (52 - n)) = k"
  shows "dbl x = of_int k / 2 ^ (52 - n)"
proof -
  have "dbl x = of_int (rint (x * 2 ^ (53 - 1 - n))) / 2 ^ (53 - 1 - n)"
    unfolding dbl_def using assms(1,2,3) by (intro round_nearest_ge1) simp_all
  then show ?thesis using assms(4) by simp
qed

lemma dbl_lt1:
  assumes "1 / 2 ^ m \<le> \<bar>x\<bar>" and "\<bar>x\<bar> < 2 / 2 ^ m" and "m \<le> 1022" and "rint (x * 2 ^ (52 + m)) = k"
  shows "dbl x = of_int k / 2 ^ (52 + m)"
proof -
  have "dbl x = of_int (rint (x * 2 ^ (53 - 1 + m))) / 2 ^ (53 - 1 + m)"
    unfolding dbl_def using assms(1,2,3) by (intro round_nearest_lt1) simp_all
  then show ?thesis using assms(4) by simp
qed

lemma dbl_small_ints:
  "dbl 1 = 1" "dbl 2 = 2" "dbl (- 1) = - 1" "dbl 5 = 5" "dbl 6 = 6"
  using dbl_exact [of 1 0] dbl_exact [of 2 0] dbl_exact [of "- 1" 0] dbl_exact [of 5 0] dbl_exact [of 6 0]
  by simp_all

lemma eta_le_eps: "2 * (1 / 2 ^ 1075) \<le> (1 / 2 ^ 53 :: real)"
proof -
  have "(2::real) ^ 54 \<le> 2 ^ 1075" by (rule power_increasing) simp_all
  then have "1 / (2::real) ^ 1075 \<le> 1 / 2 ^ 54" by (simp only: frac_le zero_less_power zero_less_numeral order_refl zero_le_one)
  moreover have "2 * (1 / (2::real) ^ 54) = 1 / 2 ^ 53" by simp
  ultimately show ?thesis by linarith
qed

section \<open>Properties of the gesture classifier\<close>

lemma isExtended_planar: "isExtended lms tip pip = planar_extended lms tip pip"
  by (simp add: isExtended_def planar_extended_def planar_dist_def hypot_def Let_def power2_eq_square)

lemma decideMode_spec:
  "decideMode T I M R P (length (filter id [T, I, M, R, P])) = spec_mode T I M R P"
  by (cases T; cases I; cases M; cases R; cases P) (simp_all add: decideMode_def spec_mode_def)

lemma writeRotationZ_fields [simp]:
  "mode (writeRotationZ lms m d) = mode d" "detected (writeRotationZ lms m d) = detected d"
  "scaleTarget (writeRotationZ lms m d) = scaleTarget d" "hand_x (writeRotationZ lms m d) = hand_x d"
  "hand_y (writeRotationZ lms m d) = hand_y d" "fingersCount (writeRotationZ lms m d) = fingersCount d"
  by (simp_all add: writeRotationZ_def Let_def)

lemma writeScaleTarget_fields [simp]:
  "mode (writeScaleTarget m d) = mode d" "detected (writeScaleTarget m d) = detected d"
  "rotationZ (writeScaleTarget m d) = rotationZ d" "hand_x (writeScaleTarget m d) = hand_x d"
  "hand_y (writeScaleTarget m d) = hand_y d" "fingersCount (writeScaleTarget m d) = fingersCount d"
  by (simp_all add: writeScaleTarget_def)

lemma processGestures_fields:
  assumes "length lms > 20"
  shows "\<exists>st'. processGestures lms st = Inr st'
     \<and> mode (gesture st') = decideMode (isExtended lms 4 2) (isExtended lms 8 6) (isExtended lms 12 10)
          (isExtended lms 16 14) (isExtended lms 20 18)
          (length (filter id [isExtended lms 4 2, isExtended lms 8 6, isExtended lms 12 10,
             isExtended lms 16 14, isExtended lms 20 18]))
     \<and> fingersCount (gesture st') = length (filter id [isExtended lms 4 2, isExtended lms 8 6,
          isExtended lms 12 10, isExtended lms 16 14, isExtended lms 20 18])"
  using assms unfolding processGestures_def Let_def
  by (simp del: filter.simps split del: if_split)

text \<open>
  Claim C3, as amended. For every frame of 21 landmarks the classifier returns; each finger
  counts as extended iff the distance in the image plane (x and y only, the depth z is not
  read) from its tip to the wrist exceeds that from its proximal joint to the wrist;
  \<open>fingersCount\<close> is the number of extended fingers; the mode follows the priority list
  ROTATE_Z, ROTATE_VIEW, SCALE_UP, SCALE_DOWN, IDLE. In particular thumb, index and middle
  extended with ring and pinky retracted gives ROTATE_Z, and no finger extended gives
  \<open>fingersCount = 0\<close> and SCALE_DOWN.
\<close>

theorem classifier_planar_priority:
  assumes "length lms = 21"
  shows "\<exists>st'. processGestures lms st = Inr st'
     \<and> mode (gesture st') = spec_mode (planar_extended lms 4 2) (planar_extended lms 8 6)
           (planar_extended lms 12 10) (planar_extended lms 16 14) (planar_extended lms 20 18)
     \<and> fingersCount (gesture st') = length (filter id [planar_extended lms 4 2, planar_extended lms 8 6,
           planar_extended lms 12 10, planar_extended lms 16 14, planar_extended lms 20 18])
     \<and> (planar_extended lms 4 2 \<and> planar_extended lms 8 6 \<and> planar_extended lms 12 10
          \<and> \<not> planar_extended lms 16 14 \<and> \<not> planar_extended lms 20 18
          \<longrightarrow> mode (gesture st') = ROTATE_Z)
     \<and> (\<not> planar_extended lms 4 2 \<and> \<not> planar_extended lms 8 6 \<and> \<not> planar_extended lms 12 10
          \<and> \<not> planar_extended lms 16 14 \<and> \<not> planar_extended lms 20 18
          \<longrightarrow> fingersCount (gesture st') = 0 \<and> mode (gesture st') = SCALE_DOWN)"
proof -
  let ?T = "planar_extended lms 4 2" and ?I = "planar_extended lms 8 6"
  let ?M = "planar_extended lms 12 10" and ?R = "planar_extended lms 16 14"
  let ?P = "planar_extended lms 20 18"
  let ?n = "length (filter id [?T, ?I, ?M, ?R, ?P])"
  have "20 < length lms" using assms by simp
  from processGestures_fields [OF this, of st]
  obtain st' where run: "processGestures lms st = Inr st'"
    and m: "mode (gesture st') = decideMode ?T ?I ?M ?R ?P ?n"
    and c: "fingersCount (gesture st') = ?n"
    unfolding isExtended_planar by blast
  have m': "mode (gesture st') = spec_mode ?T ?I ?M ?R ?P"
    using m by (simp only: decideMode_spec)
  have rz: "?T \<and> ?I \<and> ?M \<and> \<not> ?R \<and> \<not> ?P \<longrightarrow> mode (gesture st') = ROTATE_Z"
    using m' by (simp add: spec_mode_def)
  have sd: "\<not> ?T \<and> \<not> ?I \<and> \<not> ?M \<and> \<not> ?R \<and> \<not> ?P
      \<longrightarrow> fingersCount (gesture st') = 0 \<and> mode (gesture st') = SCALE_DOWN"
    using m' c by (simp add: spec_mode_def)
  show ?thesis using run m' c rz sd by blast
qed

lemma frame_depth_nth:
  "frame_depth ! 0 = lm 0 0 0" "frame_depth ! 2 = lm 0 0 0.5" "frame_depth ! 4 = lm 0.1 0 0"
  "frame_depth ! 6 = lm 0 0 0.5" "frame_depth ! 8 = lm 0.1 0 0"
  "frame_depth ! 10 = lm 0 0 0.5" "frame_depth ! 12 = lm 0.1 0 0"
  "frame_depth ! 14 = lm 0 0 0.5" "frame_depth ! 16 = lm 0.1 0 0"
  "frame_depth ! 18 = lm 0 0 0.5" "frame_depth ! 20 = lm 0.1 0 0"
  "frame_depth ! 9 = lm 0 0 0" "length frame_depth = 21"
  by (simp_all add: frame_depth_def)

lemma frame_depth_extended:
  "isExtended frame_depth 4 2" "isExtended frame_depth 8 6" "isExtended frame_depth 12 10"
  "isExtended frame_depth 16 14" "isExtended frame_depth 20 18"
  by (simp_all add: isExtended_def hypot_def frame_depth_nth lm_def)

lemma frame_depth_run:
  "classified (processGestures frame_depth tracker0) = Some (5, SCALE_UP)"
  using processGestures_fields [of frame_depth tracker0]
  by (auto simp add: classified_def frame_depth_nth frame_depth_extended decideMode_def)

text \<open>
  Claim C3 as stated, with the Euclidean distance of the 3D landmarks, fails: in
  \<open>frame_depth\<close> every tip is closer to the wrist than its proximal joint (the joints lie
  deeper, at z = 0.5), yet the classifier reports five extended fingers and SCALE_UP.
\<close>

theorem classifier_euclid_counterexample:
  "length frame_depth = 21
   \<and> euclid_dist (frame_depth ! 4) (frame_depth ! 0) < euclid_dist (frame_depth ! 2) (frame_depth ! 0)
   \<and> euclid_dist (frame_depth ! 8) (frame_depth ! 0) < euclid_dist (frame_depth ! 6) (frame_depth ! 0)
   \<and> euclid_dist (frame_depth ! 12) (frame_depth ! 0) < euclid_dist (frame_depth ! 10) (frame_depth ! 0)
   \<and> euclid_dist (frame_depth ! 16) (frame_depth ! 0) < euclid_dist (frame_depth ! 14) (frame_depth ! 0)
   \<and> euclid_dist (frame_depth ! 20) (frame_depth ! 0) < euclid_dist (frame_depth ! 18) (frame_depth ! 0)
   \<and> classified (processGestures frame_depth tracker0) = Some (5, SCALE_UP)"
  by (simp add: frame_depth_nth euclid_dist_def lm_def frame_depth_run)

lemma fixture_length: "length (fixture t i m r p) = 21"
  by (simp add: fixture_def Let_def)

lemma fixture_extended:
  "planar_extended (fixture t i m r p) 4 2 = t" "planar_extended (fixture t i m r p) 8 6 = i"
  "planar_extended (fixture t i m r p) 12 10 = m" "planar_extended (fixture t i m r p) 16 14 = r"
  "planar_extended (fixture t i m r p) 20 18 = p"
  by (simp_all add: fixture_def Let_def planar_extended_def planar_dist_def lm_def)

theorem classifier_planar_priority_witness:
  "length (fixture True True True False False) = 21
   \<and> classified (processGestures (fixture True True True False False) tracker0) = Some (3, ROTATE_Z)
   \<and> length (fixture False False False False False) = 21
   \<and> classified (processGestures (fixture False False False False False) tracker0) = Some (0, SCALE_DOWN)"
  using classifier_planar_priority [of "fixture True True True False False" tracker0]
    classifier_planar_priority [of "fixture False False False False False" tracker0]
  by (auto simp add: classified_def fixture_length fixture_extended spec_mode_def)

lemma noHand_fields [simp]:
  "mode (gesture (noHand st)) = IDLE" "detected (gesture (noHand st)) = False"
  "hand_x (gesture (noHand st)) = 0" "hand_y (gesture (noHand st)) = 0"
  "rotationZ (gesture (noHand st)) = rotationZ (gesture st)"
  "scaleTarget (gesture (noHand st)) = scaleTarget (gesture st)"
  "fingersCount (gesture (noHand st)) = fingersCount (gesture st)"
  by (simp_all add: noHand_def Let_def)

text \<open>
  Claim C9. A polling tick that runs the detector and gets no hand leaves the shared record
  with mode IDLE, \<open>detected = False\<close> and the hand position at (0, 0).
\<close>

theorem no_hand_resets:
  assumes "now - lastTime st \<ge> 33" and "videoReady" and "results = None \<or> results = Some []"
  shows "\<exists>st'. loop now videoReady results st = Inr st'
     \<and> mode (gesture st') = IDLE \<and> detected (gesture st') = False
     \<and> hand_x (gesture st') = 0 \<and> hand_y (gesture st') = 0"
  using assms by (auto simp add: loop_def Let_def)

theorem no_hand_resets_witness:
  "(133::real) - lastTime tracker_seen \<ge> 33
   \<and> hand_x (gesture tracker_seen) = 0.4 \<and> hand_y (gesture tracker_seen) = 0.6
   \<and> map_sum id (\<lambda>s. (mode (gesture s), detected (gesture s), hand_x (gesture s), hand_y (gesture s)))
        (loop 133 True (Some []) tracker_seen) = Inr (IDLE, False, 0, 0)"
  using no_hand_resets [of 133 tracker_seen True "Some []"]
  by (auto simp add: tracker_seen_def)

lemma processGestures_frame:
  assumes "processGestures lms st = Inr st'"
  shows "(mode (gesture st') \<noteq> ROTATE_Z \<longrightarrow> rotationZ (gesture st') = rotationZ (gesture st))
     \<and> (mode (gesture st') \<noteq> SCALE_UP \<and> mode (gesture st') \<noteq> SCALE_DOWN
          \<longrightarrow> scaleTarget (gesture st') = scaleTarget (gesture st))"
proof -
  let ?m = "decideMode (isExtended lms 4 2) (isExtended lms 8 6) (isExtended lms 12 10)
          (isExtended lms 16 14) (isExtended lms 20 18)
          (length (filter id [isExtended lms 4 2, isExtended lms 8 6, isExtended lms 12 10,
             isExtended lms 16 14, isExtended lms 20 18]))"
  have len: "\<not> length lms \<le> 20" using assms by (auto simp add: processGestures_def)
  obtain d where d: "gesture st' = writeScaleTarget ?m (writeRotationZ lms ?m d)"
    and dm: "mode d = ?m" and dr: "rotationZ d = rotationZ (gesture st)"
    and ds: "scaleTarget d = scaleTarget (gesture st)"
    using assms len unfolding processGestures_def Let_def
    by (auto simp del: filter.simps split del: if_split)
  have m: "mode (gesture st') = ?m" using d dm by simp
  have r: "mode (gesture st') \<noteq> ROTATE_Z \<longrightarrow> rotationZ (gesture st') = rotationZ (gesture st)"
    unfolding m using d dr by (simp add: writeRotationZ_def)
  have s: "mode (gesture st') \<noteq> SCALE_UP \<and> mode (gesture st') \<noteq> SCALE_DOWN
          \<longrightarrow> scaleTarget (gesture st') = scaleTarget (gesture st)"
    unfolding m using d ds by (simp add: writeScaleTarget_def)
  show ?thesis using r s by blast
qed

text \<open>
  Claim C10. A tick of the polling loop changes \<open>rotationZ\<close> only if the mode it leaves is
  ROTATE_Z, changes \<open>scaleTarget\<close> only if that mode is SCALE_UP or SCALE_DOWN, and a no-hand
  tick leaves \<open>rotationZ\<close>, \<open>scaleTarget\<close> and \<open>fingersCount\<close> as they were. The witness
  shows a stale \<open>scaleTarget = 3\<close> and \<open>fingersCount = 5\<close> next to mode IDLE.
\<close>

theorem tick_frame_effect:
  assumes "loop now videoReady results st = Inr st'"
  shows "(mode (gesture st') \<noteq> ROTATE_Z \<longrightarrow> rotationZ (gesture st') = rotationZ (gesture st))
     \<and> (mode (gesture st') \<noteq> SCALE_UP \<and> mode (gesture st') \<noteq> SCALE_DOWN
          \<longrightarrow> scaleTarget (gesture st') = scaleTarget (gesture st))
     \<and> (results = None \<or> results = Some []
          \<longrightarrow> rotationZ (gesture st') = rotationZ (gesture st)
            \<and> scaleTarget (gesture st') = scaleTarget (gesture st)
            \<and> fingersCount (gesture st') = fingersCount (gesture st))"
proof (cases "now - lastTime st \<ge> 33 \<and> videoReady")
  case False
  then have "st' = st" using assms by (auto simp add: loop_def)
  then show ?thesis by simp
next
  case run: True
  show ?thesis
  proof (cases "\<exists>lms rest. results = Some (lms # rest)")
    case True
    then obtain lms rest where res: "results = Some (lms # rest)" by blast
    have "processGestures lms (st\<lparr>lastTime := now\<rparr>) = Inr st'"
      using assms run res by (simp add: loop_def)
    from processGestures_frame [OF this] show ?thesis using res by simp
  next
    case False
    then have "results = None \<or> results = Some []"
      by (cases results) (auto simp add: list.exhaust_sel intro: list.exhaust)
    then have "st' = noHand (st\<lparr>lastTime := now\<rparr>)"
      using assms run by (auto simp add: loop_def)
    then show ?thesis by simp
  qed
qed

theorem tick_frame_effect_witness:
  "loop 140 True None tracker_open = Inr (noHand (tracker_open\<lparr>lastTime := 140\<rparr>))
   \<and> mode (gesture (noHand (tracker_open\<lparr>lastTime := 140\<rparr>))) = IDLE
   \<and> scaleTarget (gesture (noHand (tracker_open\<lparr>lastTime := 140\<rparr>))) = 3
   \<and> fingersCount (gesture (noHand (tracker_open\<lparr>lastTime := 140\<rparr>))) = 5"
proof -
  have run: "loop 140 True None tracker_open = Inr (noHand (tracker_open\<lparr>lastTime := 140\<rparr>))"
    by (simp add: loop_def tracker_open_def)
  from tick_frame_effect [OF run] show ?thesis
    using run by (simp add: tracker_open_def)
qed

section \<open>Properties of the interaction rig\<close>

lemma lerp_step:
  assumes x: "0 \<le> x" and t: "0 \<le> t" "t \<le> 1"
  shows "0 \<le> lerp x 3 t \<and> \<bar>lerp x 3 t - ((1 - t) * x + 3 * t)\<bar> \<le> (x + 3) * (5 / 2 ^ 53)"
proof -
  define eps :: real where "eps = 1 / 2 ^ 53"
  define eta :: real where "eta = 1 / 2 ^ 1075"
  have e0: "0 < eps" "eps \<le> 1 / 4" by (simp_all add: eps_def)
  have h0: "0 < eta" by (simp add: eta_def)
  have he: "2 * eta \<le> eps" unfolding eta_def eps_def by (rule eta_le_eps)
  have err: "\<bar>dbl v - v\<bar> \<le> \<bar>v\<bar> * eps + eta" for v
    using dbl_error [of v] by (simp add: eps_def eta_def)
  define s where "s = dbl (1 - t)"
  define p where "p = dbl (s * x)"
  define q where "q = dbl (t * 3)"
  define r where "r = dbl (p + q)"
  define a where "a = x * eps"
  define b where "b = x * eta"
  have r: "lerp x 3 t = r" by (simp add: lerp_def r_def p_def q_def s_def)
  have a0: "0 \<le> a" using x e0 by (simp add: a_def)
  have b0: "0 \<le> b" using x h0 by (simp add: b_def)
  have ba: "2 * b \<le> a"
  proof -
    have "x * (2 * eta) \<le> x * eps" using he x by (rule mult_left_mono)
    then show ?thesis by (simp add: a_def b_def)
  qed
  have ax: "4 * a \<le> x"
  proof -
    have "x * eps \<le> x * (1 / 4)" using e0(2) x by (rule mult_left_mono)
    then show ?thesis by (simp add: a_def)
  qed
  have s01: "0 \<le> s" "s \<le> 1" using dbl_unit [of "1 - t"] t by (simp_all add: s_def)
  have "\<bar>1 - t\<bar> * eps \<le> 1 * eps" using t e0 by (intro mult_right_mono) auto
  then have f1: "\<bar>s - (1 - t)\<bar> \<le> eps + eta" using err [of "1 - t"] by (simp add: s_def)
  have sx: "0 \<le> s * x" "s * x \<le> x"
    using s01 x by (simp_all add: mult_left_le_one_le)
  have "\<bar>s * x\<bar> * eps \<le> x * eps" using sx e0 by (intro mult_right_mono) auto
  then have f3: "\<bar>p - s * x\<bar> \<le> a + eta" using err [of "s * x"] by (simp add: p_def a_def)
  have "\<bar>s * x - (1 - t) * x\<bar> = \<bar>s - (1 - t)\<bar> * x"
    using x by (simp add: abs_mult flip: left_diff_distrib)
  also have "\<dots> \<le> (eps + eta) * x" using f1 x by (rule mult_right_mono)
  finally have f4: "\<bar>s * x - (1 - t) * x\<bar> \<le> a + b" by (simp add: a_def b_def algebra_simps)
  have "\<bar>t * 3\<bar> * eps \<le> 3 * eps" using t e0 by (intro mult_right_mono) auto
  then have f5: "\<bar>q - t * 3\<bar> \<le> 3 * eps + eta" using err [of "t * 3"] by (simp add: q_def)
  have p0: "0 \<le> p" unfolding p_def using sx(1) by (rule dbl_nonneg)
  have q0: "0 \<le> q" unfolding q_def using t by (intro dbl_nonneg) simp
  have r0: "0 \<le> r" unfolding r_def using p0 q0 by (intro dbl_nonneg) simp
  define L where "L = (1 - t) * x + 3 * t"
  have "(1 - t) * x \<le> 1 * x" using t x by (intro mult_right_mono) auto
  then have L: "L \<le> x + 3" using t by (simp add: L_def)
  have f7: "\<bar>p + q - L\<bar> \<le> 2 * a + b + 3 * eps + 2 * eta"
    using f3 f4 f5 by (simp add: L_def)
  have "p + q - L \<le> 2 * a + b + 3 * eps + 2 * eta" using f7 by (simp only: abs_le_iff)
  moreover have "2 * a + b + 3 * eps + 2 * eta \<le> x + 1" using ax ba a0 b0 e0 he x by argo
  ultimately have pq: "p + q \<le> 2 * (x + 3)" using L x by argo
  have "\<bar>p + q\<bar> * eps \<le> (2 * (x + 3)) * eps" using pq p0 q0 e0 by (intro mult_right_mono) auto
  then have f9: "\<bar>r - (p + q)\<bar> \<le> 2 * a + 6 * eps + eta"
    using err [of "p + q"] by (simp add: r_def a_def algebra_simps)
  have "\<bar>r - L\<bar> \<le> \<bar>r - (p + q)\<bar> + \<bar>p + q - L\<bar>" by simp
  then have "\<bar>r - L\<bar> \<le> 4 * a + b + 9 * eps + 3 * eta" using f7 f9 by linarith
  also have "\<dots> \<le> 5 * a + 15 * eps" using ba he a0 b0 e0 by linarith
  also have "\<dots> = (x + 3) * (5 / 2 ^ 53)" by (simp add: a_def eps_def algebra_simps)
  finally show ?thesis using r0 unfolding r L_def by simp
qed


lemma rigTick_scale_up:
  assumes "mode data = SCALE_UP" and "scaleTarget data = 3"
  shows "currentScale (rigTick True True orbit data delta s) = lerp (currentScale s) 3 (dbl (delta * 5))"
  using assms by (simp add: rigTick_def Let_def)

lemma rigTicks_snoc:
  "rigTicks orbit data (deltas @ [delta]) s = rigTick True True orbit data delta (rigTicks orbit data deltas s)"
  by (induction deltas arbitrary: s) simp_all

lemma rig_Suc:
  assumes "mode data = SCALE_UP" and "scaleTarget data = 3"
  shows "currentScale (rigTicks orbit data (map ds [0..<Suc n]) s)
       = lerp (currentScale (rigTicks orbit data (map ds [0..<n]) s)) 3 (dbl (ds n * 5))"
  using rigTick_scale_up [OF assms] by (simp add: rigTicks_snoc)

lemma speed_unit:
  assumes "0 \<le> delta" and "delta \<le> d020"
  shows "0 \<le> dbl (delta * 5) \<and> dbl (delta * 5) \<le> 1"
proof (cases "delta * 5 \<le> 1")
  case True
  then show ?thesis using assms(1) by (intro dbl_unit) simp_all
next
  case False
  then have lo: "1 < delta * 5" by simp
  have hi: "delta * 5 \<le> 1 + 1 / 2 ^ 54" using assms(2) by (simp add: d020_def)
  have "dbl (delta * 5) = of_int 4503599627370496 / 2 ^ (52 - 0)"
  proof (rule dbl_ge1)
    show "rint (delta * 5 * 2 ^ (52 - 0)) = 4503599627370496"
      by (rule rint_frac(1)) (use lo hi in simp_all)
  qed (use lo hi in simp_all)
  then show ?thesis by simp
qed

lemma speed_lower:
  assumes "1 / 2 ^ 40 \<le> d" and "d \<le> delta" and "delta \<le> d020"
  shows "4 * d \<le> dbl (delta * 5)"
proof -
  define eps :: real where "eps = 1 / 2 ^ 53"
  define eta :: real where "eta = 1 / 2 ^ 1075"
  have he: "2 * eta \<le> eps" unfolding eta_def eps_def by (rule eta_le_eps)
  have e: "0 < eps" "eps \<le> 1 / 2 ^ 53" by (simp_all add: eps_def)
  have d0: "0 < d" using assms(1) by (smt (verit) divide_pos_pos zero_less_power zero_less_numeral zero_less_one)
  have v: "0 \<le> delta * 5" using d0 assms(2) by simp
  have "\<bar>dbl (delta * 5) - delta * 5\<bar> \<le> \<bar>delta * 5\<bar> * eps + eta"
    using dbl_error [of "delta * 5"] by (simp add: eps_def eta_def)
  then have lo: "delta * 5 - (delta * 5) * eps - eta \<le> dbl (delta * 5)" using v by (simp add: abs_le_iff)
  have "delta * 5 \<le> 3 / 2" using assms(3) by (simp add: d020_def)
  then have "(delta * 5) * eps \<le> 3 / 2 * eps"
    using e(1) by (intro mult_right_mono) simp_all
  then have a: "(delta * 5) * eps \<le> 3 / 2 * eps" by simp
  have "eps \<le> 1 / 2 ^ 41" using e(2) by simp
  moreover have "1 / 2 ^ 41 \<le> d / 2" using assms(1) by simp
  ultimately have b: "2 * eps \<le> d" by linarith
  show ?thesis using lo a b he assms(2) e(1) by linarith
qed

lemma lerp_towards:
  fixes x t :: real
  assumes "0 \<le> t" and "t \<le> 1"
  shows "(1 - t) * x + 3 * t \<le> max x 3"
proof -
  have e: "(1 - t) * x + 3 * t = x + t * (3 - x)" by (simp add: algebra_simps)
  show ?thesis
  proof (cases "x \<le> 3")
    case True
    then have "t * (3 - x) \<le> 1 * (3 - x)" using assms by (intro mult_right_mono) simp_all
    then show ?thesis unfolding e using True by simp
  next
    case False
    then have "t * (3 - x) \<le> 0" using assms by (simp add: mult_nonneg_nonpos)
    then show ?thesis unfolding e using False by simp
  qed
qed

lemma rig_general_bound:
  assumes "mode data = SCALE_UP" and "scaleTarget data = 3" and "currentScale s = 1"
    and small: "\<forall>k. 0 \<le> ds k \<and> ds k \<le> d020"
  shows "0 \<le> currentScale (rigTicks orbit data (map ds [0..<n]) s)
       \<and> currentScale (rigTicks orbit data (map ds [0..<n]) s) + 3 \<le> 6 * (1 + 5 / 2 ^ 53) ^ n"
proof (induction n)
  case 0
  show ?case using assms(3) by simp
next
  case (Suc n)
  define x where "x = currentScale (rigTicks orbit data (map ds [0..<n]) s)"
  define t where "t = dbl (ds n * 5)"
  define B :: real where "B = 6 * (1 + 5 / 2 ^ 53) ^ n"
  define k :: real where "k = 5 / 2 ^ 53"
  have x0: "0 \<le> x" and xB: "x + 3 \<le> B" using Suc by (simp_all add: x_def B_def)
  have "0 \<le> ds n \<and> ds n \<le> d020" using small by blast
  then have t: "0 \<le> t" "t \<le> 1" using speed_unit [of "ds n"] by (simp_all add: t_def)
  have st: "0 \<le> lerp x 3 t" "\<bar>lerp x 3 t - ((1 - t) * x + 3 * t)\<bar> \<le> (x + 3) * k"
    using lerp_step [OF x0 t] by (simp_all add: k_def)
  have "(1::real) \<le> (1 + 5 / 2 ^ 53) ^ n" by (rule one_le_power) simp
  then have B6: "6 \<le> B" by (simp add: B_def)
  have k0: "0 \<le> k" by (simp add: k_def)
  have L: "(1 - t) * x + 3 * t \<le> max x 3" using t by (rule lerp_towards)
  have m: "max x 3 + 3 \<le> B" using xB B6 by (simp add: max_def)
  have e: "(x + 3) * k \<le> B * k" using xB k0 by (rule mult_right_mono)
  have "lerp x 3 t \<le> (1 - t) * x + 3 * t + (x + 3) * k"
    using st(2) by (simp add: abs_le_iff)
  then have "lerp x 3 t + 3 \<le> B + B * k" using L m e by linarith
  also have "\<dots> = 6 * (1 + 5 / 2 ^ 53) ^ Suc n" by (simp add: B_def k_def algebra_simps)
  finally have "lerp x 3 t + 3 \<le> 6 * (1 + 5 / 2 ^ 53) ^ Suc n" .
  then show ?case unfolding rig_Suc [OF assms(1,2)] using st(1) by (simp add: x_def t_def)
qed


lemma rig_paced_bound:
  assumes "mode data = SCALE_UP" and "scaleTarget data = 3" and "currentScale s = 1"
    and small: "\<forall>k. 0 \<le> ds k \<and> ds k \<le> d020"
    and d: "1 / 2 ^ 40 \<le> d" and low: "\<forall>k. d \<le> ds k"
  shows "0 \<le> currentScale (rigTicks orbit data (map ds [0..<n]) s)
       \<and> currentScale (rigTicks orbit data (map ds [0..<n]) s) \<le> 3 + 1 / (2 ^ 49 * d)
       \<and> 3 - currentScale (rigTicks orbit data (map ds [0..<n]) s) \<le> 2 * (1 - 4 * d) ^ n + 1 / (2 ^ 49 * d)"
proof (induction n)
  case 0
  have "0 < d" using d by (smt (verit) divide_pos_pos zero_less_power zero_less_numeral zero_less_one)
  then have "0 \<le> 1 / (2 ^ 49 * d)" by simp
  then show ?case using assms(3) by simp
next
  case (Suc n)
  define x where "x = currentScale (rigTicks orbit data (map ds [0..<n]) s)"
  define t where "t = dbl (ds n * 5)"
  define k :: real where "k = 5 / 2 ^ 53"
  define rho :: real where "rho = 1 / (2 ^ 49 * d)"
  define G :: real where "G = 2 * (1 - 4 * d) ^ n + rho"
  have d0: "0 < d" using d by (smt (verit) divide_pos_pos zero_less_power zero_less_numeral zero_less_one)
  have dn: "d \<le> ds n" "0 \<le> ds n" "ds n \<le> d020" using small low by simp_all
  have "d020 \<le> 1 / 4" by (simp add: d020_def)
  then have d5: "4 * d \<le> 1" using dn by linarith
  have x0: "0 \<le> x" and xu: "x \<le> 3 + rho" and xl: "3 - x \<le> G"
    using Suc by (simp_all add: x_def rho_def G_def)
  have t: "0 \<le> t" "t \<le> 1" using speed_unit [OF dn(2,3)] by (simp_all add: t_def)
  have tl: "4 * d \<le> t" using speed_lower [OF d dn(1,3)] by (simp add: t_def)
  have st: "0 \<le> lerp x 3 t" "\<bar>lerp x 3 t - ((1 - t) * x + 3 * t)\<bar> \<le> (x + 3) * k"
    using lerp_step [OF x0 t] by (simp_all add: k_def)
  have rho0: "0 < rho" using d0 by (simp add: rho_def)
  have "rho = (1 / 2 ^ 49) / d" by (simp add: rho_def)
  also have "\<dots> \<le> (1 / 2 ^ 49) / (1 / 2 ^ 40)" using d by (intro divide_left_mono) simp_all
  finally have rho1: "rho \<le> 1" by simp
  have dr: "4 * d * rho = 64 / 2 ^ 53" using d0 by (simp add: rho_def)
  have k7: "7 * k \<le> 4 * d * rho" unfolding dr by (simp add: k_def)
  have k0: "0 \<le> k" by (simp add: k_def)
  have "(x + 3) * k \<le> 7 * k" using xu rho1 k0 by (intro mult_right_mono) simp_all
  then have ek: "(x + 3) * k \<le> 4 * d * rho" using k7 by linarith
  have G0: "0 \<le> G"
  proof -
    have "0 \<le> (1 - 4 * d) ^ n" using d5 by simp
    then show ?thesis using rho0 by (simp add: G_def)
  qed
  have L: "(1 - t) * x + 3 * t - 3 = (1 - t) * (x - 3)" by (simp add: algebra_simps)
  have up: "(1 - t) * (x - 3) \<le> (1 - 4 * d) * rho"
  proof (cases "0 \<le> x - 3")
    case True
    show ?thesis using tl xu True t by (intro mult_mono) simp_all
  next
    case False
    then have "(1 - t) * (x - 3) \<le> 0" using t by (simp add: mult_nonneg_nonpos)
    moreover have "0 \<le> (1 - 4 * d) * rho" using d5 rho0 by simp
    ultimately show ?thesis by linarith
  qed
  have dn': "(1 - t) * (3 - x) \<le> (1 - 4 * d) * G"
  proof (cases "0 \<le> 3 - x")
    case True
    show ?thesis using tl xl True t G0 by (intro mult_mono) simp_all
  next
    case False
    then have "(1 - t) * (3 - x) \<le> 0" using t by (simp add: mult_nonneg_nonpos)
    moreover have "0 \<le> (1 - 4 * d) * G" using d5 G0 by simp
    ultimately show ?thesis by linarith
  qed
  have two: "lerp x 3 t - 3 \<le> (1 - t) * (x - 3) + (x + 3) * k"
    "3 - lerp x 3 t \<le> (1 - t) * (3 - x) + (x + 3) * k"
    using st(2) L by (simp_all add: abs_le_iff algebra_simps)
  have a: "lerp x 3 t \<le> 3 + rho"
  proof -
    have "(1 - 4 * d) * rho = rho - 4 * d * rho" by (simp add: algebra_simps)
    then show ?thesis using two(1) up ek by linarith
  qed
  have b: "3 - lerp x 3 t \<le> 2 * (1 - 4 * d) ^ Suc n + rho"
  proof -
    have "(1 - 4 * d) * G = 2 * (1 - 4 * d) ^ Suc n + rho - 4 * d * rho"
      by (simp add: G_def algebra_simps)
    then show ?thesis using two(2) dn' ek by linarith
  qed
  show ?case
    unfolding rig_Suc [OF assms(1,2)] using st(1) a b by (simp add: x_def t_def rho_def)
qed

lemma speed_d040: "dbl (d040 * 5) = 2"
proof -
  have "dbl (d040 * 5) = of_int 4503599627370496 / 2 ^ (52 - 1)"
  proof (rule dbl_ge1)
    show "rint (d040 * 5 * 2 ^ (52 - 1)) = 4503599627370496"
      by (rule rint_frac(1)) (simp_all add: d040_def)
  qed (simp_all add: d040_def)
  then show ?thesis by simp
qed

lemma speed_d020: "dbl (d020 * 5) = 1"
proof -
  have "dbl (d020 * 5) = of_int 4503599627370496 / 2 ^ (52 - 0)"
  proof (rule dbl_ge1)
    show "rint (d020 * 5 * 2 ^ (52 - 0)) = 4503599627370496"
      by (rule rint_frac(1)) (simp_all add: d020_def)
  qed (simp_all add: d020_def)
  then show ?thesis by simp
qed

lemma speed_d004: "dbl (d004 * 5) = d020"
proof -
  have "dbl (d004 * 5) = of_int (7205759403792793 + 1) / 2 ^ (52 + 3)"
  proof (rule dbl_lt1)
    show "rint (d004 * 5 * 2 ^ (52 + 3)) = 7205759403792793 + 1"
      by (rule rint_frac(2)) (simp_all add: d004_def)
  qed (simp_all add: d004_def)
  then show ?thesis by (simp add: d020_def)
qed

lemma one_minus_d020: "dbl (1 - d020) = 3602879701896397 / 2 ^ 52"
proof -
  have "dbl (1 - d020) = of_int (if even (7205759403792793::int) then 7205759403792793 else 7205759403792793 + 1) / 2 ^ (52 + 1)"
  proof (rule dbl_lt1)
    show "rint ((1 - d020) * 2 ^ (52 + 1)) = (if even (7205759403792793::int) then 7205759403792793 else 7205759403792793 + 1)"
      by (rule rint_tie) (simp add: d020_def)
  qed (simp_all add: d020_def)
  then show ?thesis by simp
qed

lemma p_step2: "dbl (3602879701896397 / 2 ^ 52 * 3) = 1351079888211149 / 2 ^ 49"
proof -
  have "dbl (3602879701896397 / 2 ^ 52 * 3) = of_int (if even (5404319552844595::int) then 5404319552844595 else 5404319552844595 + 1) / 2 ^ (52 - 1)"
  proof (rule dbl_ge1)
    show "rint (3602879701896397 / 2 ^ 52 * 3 * 2 ^ (52 - 1)) = (if even (5404319552844595::int) then 5404319552844595 else 5404319552844595 + 1)"
      by (rule rint_tie) simp
  qed simp_all
  then show ?thesis by simp
qed

lemma q_step2: "dbl (d020 * 3) = 1351079888211149 / 2 ^ 51"
proof -
  have "dbl (d020 * 3) = of_int (if even (5404319552844595::int) then 5404319552844595 else 5404319552844595 + 1) / 2 ^ (52 + 1)"
  proof (rule dbl_lt1)
    show "rint (d020 * 3 * 2 ^ (52 + 1)) = (if even (5404319552844595::int) then 5404319552844595 else 5404319552844595 + 1)"
      by (rule rint_tie) (simp add: d020_def)
  qed (simp_all add: d020_def)
  then show ?thesis by simp
qed

lemma r_step2: "dbl (1351079888211149 / 2 ^ 49 + 1351079888211149 / 2 ^ 51) = 3 + 1 / 2 ^ 51"
  using dbl_exact [of 6755399441055745 51] by simp

lemma lerp_d040: "lerp 1 3 2 = 5"
  by (simp add: lerp_def dbl_small_ints)

lemma lerp_full: "lerp 1 3 1 = 3"
  by (simp add: lerp_def dbl_zero dbl_three)

lemma lerp_d020: "lerp 3 3 d020 = 3 + 1 / 2 ^ 51"
  unfolding lerp_def one_minus_d020 p_step2 q_step2 r_step2 ..


lemma rigTicks_zero_deltas:
  assumes "mode data = SCALE_UP" and "scaleTarget data = 3" and "currentScale s = 1"
  shows "currentScale (rigTicks orbit data (replicate n 0) s) = 1"
  using assms(3)
proof (induction n arbitrary: s)
  case 0
  then show ?case by simp
next
  case (Suc n)
  have "lerp 1 3 0 = 1" by (simp add: lerp_def dbl_zero dbl_small_ints)
  then have "currentScale (rigTick True True orbit data 0 s) = 1"
    using Suc.prems by (simp add: rigTick_scale_up [OF assms(1,2)] dbl_zero)
  then show ?case using Suc.IH by simp
qed

lemma lerp_steady1: "lerp 1 3 (5 / 64) = 37 / 32"
proof -
  have a: "dbl (1 - 5 / 64) = 59 / 64" using dbl_exact [of 59 6] by simp
  have b: "dbl (59 / 64 * 1) = 59 / 64" using dbl_exact [of 59 6] by simp
  have c: "dbl (5 / 64 * 3) = 15 / 64" using dbl_exact [of 15 6] by simp
  have d: "dbl (59 / 64 + 15 / 64) = 37 / 32" using dbl_exact [of 37 5] by simp
  show ?thesis unfolding lerp_def a b c d ..
qed

lemma lerp_steady2: "lerp (37 / 32) 3 (5 / 64) = 2663 / 2048"
proof -
  have a: "dbl (1 - 5 / 64) = 59 / 64" using dbl_exact [of 59 6] by simp
  have b: "dbl (59 / 64 * (37 / 32)) = 2183 / 2048" using dbl_exact [of 2183 11] by simp
  have c: "dbl (5 / 64 * 3) = 15 / 64" using dbl_exact [of 15 6] by simp
  have d: "dbl (2183 / 2048 + 15 / 64) = 2663 / 2048" using dbl_exact [of 2663 11] by simp
  show ?thesis unfolding lerp_def a b c d ..
qed

lemma speed_steady: "dbl (steady k * 5) = 5 / 64"
  using dbl_exact [of 5 6] by (simp add: steady_def)

lemma steady_two:
  "currentScale (rigTicks True data_up (map steady [0..<2]) rig0) = 2663 / 2048"
proof -
  have h: "mode data_up = SCALE_UP" "scaleTarget data_up = 3"
    by (simp_all add: data_up_def)
  have c0: "currentScale (rigTicks True data_up (map steady [0..<0]) rig0) = 1"
    by (simp add: rig0_def)
  have c1: "currentScale (rigTicks True data_up (map steady [0..<Suc 0]) rig0) = 37 / 32"
    unfolding rig_Suc [OF h] c0 speed_steady by (rule lerp_steady1)
  have c2: "currentScale (rigTicks True data_up (map steady [0..<Suc (Suc 0)]) rig0) = 2663 / 2048"
    unfolding rig_Suc [OF h, of True steady "Suc 0"] c1 speed_steady by (rule lerp_steady2)
  have "(2::nat) = Suc (Suc 0)" by simp
  then show ?thesis using c2 by (simp only:)
qed

text \<open>
  Claim C7, as amended. Starting from \<open>currentScale = 1\<close>, during a sustained SCALE_UP
  gesture with \<open>scaleTarget = 3\<close>, for every sequence of ticks whose frame deltas all lie
  between 0 and 0.2 seconds (so that \<open>lerpSpeed\<close> is at most 1), the scale stays
  non-negative and after \<open>n\<close> ticks is at most \<open>6 (1 + 5 / 2\<^sup>5\<^sup>3)\<^sup>n - 3\<close>: it passes 3 by
  no more than the rounding errors of the ticks so far. If moreover every frame delta is
  at least some \<open>d\<close> of at least \<open>2\<^sup>-\<^sup>4\<^sup>0\<close> seconds, then with \<open>\<rho> = 1 / (2\<^sup>4\<^sup>9 d)\<close> the scale
  never exceeds \<open>3 + \<rho>\<close>, its distance below 3 after \<open>n\<close> ticks is at most
  \<open>2 (1 - 4 d)\<^sup>n + \<rho>\<close>, and from some tick on it stays within \<open>2 \<rho>\<close> of 3.
\<close>

theorem scale_up_bounded_approach:
  assumes "mode data = SCALE_UP" and "scaleTarget data = 3" and "currentScale s = 1"
    and small: "\<forall>k. 0 \<le> ds k \<and> ds k \<le> d020"
  shows "0 \<le> currentScale (rigTicks orbit data (map ds [0..<n]) s)
    \<and> currentScale (rigTicks orbit data (map ds [0..<n]) s) \<le> 6 * (1 + 5 / 2 ^ 53) ^ n - 3
    \<and> (\<forall>d. 1 / 2 ^ 40 \<le> d \<and> (\<forall>k. d \<le> ds k) \<longrightarrow>
          currentScale (rigTicks orbit data (map ds [0..<n]) s) \<le> 3 + 1 / (2 ^ 49 * d)
        \<and> 3 - currentScale (rigTicks orbit data (map ds [0..<n]) s)
             \<le> 2 * (1 - 4 * d) ^ n + 1 / (2 ^ 49 * d)
        \<and> (\<forall>\<^sub>F m in sequentially.
             \<bar>currentScale (rigTicks orbit data (map ds [0..<m]) s) - 3\<bar> \<le> 1 / (2 ^ 48 * d)))"
proof -
  let ?c = "\<lambda>n. currentScale (rigTicks orbit data (map ds [0..<n]) s)"
  have g: "0 \<le> ?c n" "?c n \<le> 6 * (1 + 5 / 2 ^ 53) ^ n - 3"
    using rig_general_bound [OF assms(1,2,3) small, of orbit n] by simp_all
  have paced: "?c n \<le> 3 + 1 / (2 ^ 49 * d)
      \<and> 3 - ?c n \<le> 2 * (1 - 4 * d) ^ n + 1 / (2 ^ 49 * d)
      \<and> (\<forall>\<^sub>F m in sequentially. \<bar>?c m - 3\<bar> \<le> 1 / (2 ^ 48 * d))"
    if d: "1 / 2 ^ 40 \<le> d" and low: "\<forall>k. d \<le> ds k" for d
  proof -
    define rho :: real where "rho = 1 / (2 ^ 49 * d)"
    have d0: "0 < d" using d by (smt (verit) divide_pos_pos zero_less_power zero_less_numeral zero_less_one)
    have rho0: "0 < rho" using d0 by (simp add: rho_def)
    have rho2: "1 / (2 ^ 48 * d) = 2 * rho" by (simp add: rho_def)
    have b: "\<And>m. ?c m \<le> 3 + rho \<and> 3 - ?c m \<le> 2 * (1 - 4 * d) ^ m + rho"
      using rig_paced_bound [OF assms(1,2,3) small d low, of orbit] by (simp add: rho_def)
    have "d \<le> ds 0" "ds 0 \<le> d020" using low small by simp_all
    moreover have "d020 < 1 / 4" by (simp add: d020_def)
    ultimately have r: "0 \<le> 1 - 4 * d" "1 - 4 * d < 1" using d0 by linarith+
    have "(\<lambda>m. (1 - 4 * d) ^ m) \<longlonglongrightarrow> 0"
      by (rule LIMSEQ_realpow_zero [OF r])
    then have "(\<lambda>m. 2 * (1 - 4 * d) ^ m) \<longlonglongrightarrow> 2 * 0"
      by (rule tendsto_mult_left)
    then have lim: "(\<lambda>m. 2 * (1 - 4 * d) ^ m) \<longlonglongrightarrow> 0" by simp
    have "\<forall>\<^sub>F m in sequentially. 2 * (1 - 4 * d) ^ m < rho"
      using lim rho0 by (rule order_tendstoD(2))
    then have ev: "\<forall>\<^sub>F m in sequentially. \<bar>?c m - 3\<bar> \<le> 2 * rho"
    proof (rule eventually_mono)
      fix m
      assume "2 * (1 - 4 * d) ^ m < rho"
      then show "\<bar>?c m - 3\<bar> \<le> 2 * rho" using b [of m] rho0 by (simp add: abs_le_iff)
    qed
    show ?thesis using b [of n] ev unfolding rho2 by (simp add: rho_def)
  qed
  show ?thesis using g paced by blast
qed

text \<open>
  Claim C7 as stated, for every non-negative frame delta, fails. One tick with a delta of
  0.4 seconds gives \<open>lerpSpeed = 2\<close> and takes the scale from 1 to 5, beyond the target 3.
  Frame deltas of 0 never move the scale: after 1000 such ticks it is still 1. And the
  rounding of the arithmetic alone takes the scale beyond 3: after two ticks with deltas
  0.2 and 0.04 it is \<open>3 + 2\<^sup>-\<^sup>5\<^sup>1\<close>, which JavaScript prints as 3.0000000000000004.
\<close>

theorem scale_up_overshoot_counterexample:
  "mode data_up = SCALE_UP \<and> scaleTarget data_up = 3 \<and> currentScale rig0 = 1
   \<and> 0 \<le> d040
   \<and> currentScale (rigTicks True data_up [d040] rig0) = 5
   \<and> \<not> currentScale (rigTicks True data_up [d040] rig0) \<le> 3
   \<and> currentScale (rigTicks True data_up (replicate 1000 0) rig0) = 1
   \<and> 0 \<le> d020 \<and> 0 \<le> d004
   \<and> currentScale (rigTicks True data_up [d020, d004] rig0) = 3 + 1 / 2 ^ 51
   \<and> \<not> currentScale (rigTicks True data_up [d020, d004] rig0) \<le> 3"
proof -
  have h: "mode data_up = SCALE_UP" "scaleTarget data_up = 3" "currentScale rig0 = 1"
    by (simp_all add: data_up_def rig0_def)
  have z: "currentScale (rigTicks True data_up (replicate 1000 0) rig0) = 1"
    using h by (rule rigTicks_zero_deltas)
  have a: "currentScale (rigTicks True data_up [d040] rig0) = 5"
    by (simp add: rigTick_scale_up [OF h(1,2)] h(3) speed_d040 lerp_d040)
  have b: "currentScale (rigTicks True data_up [d020, d004] rig0) = 3 + 1 / 2 ^ 51"
    by (simp add: rigTick_scale_up [OF h(1,2)] h(3) speed_d020 speed_d004 lerp_full lerp_d020)
  have p: "0 \<le> d040" "0 \<le> d020" "0 \<le> d004" by (simp_all add: d040_def d020_def d004_def)
  show ?thesis unfolding a b z using h p by simp
qed

theorem scale_up_bounded_approach_witness:
  "mode data_up = SCALE_UP \<and> scaleTarget data_up = 3 \<and> currentScale rig0 = 1
   \<and> (\<forall>k. 0 \<le> steady k \<and> steady k \<le> d020)
   \<and> (1::real) / 2 ^ 40 \<le> 1 / 64 \<and> (\<forall>k. 1 / 64 \<le> steady k)
   \<and> currentScale (rigTicks True data_up (map steady [0..<2]) rig0) = 2663 / 2048
   \<and> currentScale (rigTicks True data_up (map steady [0..<2]) rig0) \<le> 6 * (1 + 5 / 2 ^ 53) ^ 2 - 3
   \<and> currentScale (rigTicks True data_up (map steady [0..<2]) rig0) \<le> 3 + 1 / (2 ^ 49 * (1 / 64))
   \<and> 3 - currentScale (rigTicks True data_up (map steady [0..<2]) rig0)
        \<le> 2 * (1 - 4 * (1 / 64)) ^ 2 + 1 / (2 ^ 49 * (1 / 64))
   \<and> (\<forall>\<^sub>F m in sequentially.
        \<bar>currentScale (rigTicks True data_up (map steady [0..<m]) rig0) - 3\<bar> \<le> 1 / (2 ^ 48 * (1 / 64)))"
proof -
  have h: "mode data_up = SCALE_UP" "scaleTarget data_up = 3" "currentScale rig0 = 1"
    "\<forall>k. 0 \<le> steady k \<and> steady k \<le> d020"
    by (simp_all add: data_up_def rig0_def steady_def d020_def)
  have low: "(1::real) / 2 ^ 40 \<le> 1 / 64" "\<forall>k. 1 / 64 \<le> steady k"
    by (simp_all add: steady_def)
  note v = steady_two
  note t = scale_up_bounded_approach [OF h, of True 2]
  from t have g: "currentScale (rigTicks True data_up (map steady [0..<2]) rig0) \<le> 6 * (1 + 5 / 2 ^ 53) ^ 2 - 3"
    by blast
  from t low have p: "currentScale (rigTicks True data_up (map steady [0..<2]) rig0) \<le> 3 + 1 / (2 ^ 49 * (1 / 64))
        \<and> 3 - currentScale (rigTicks True data_up (map steady [0..<2]) rig0)
             \<le> 2 * (1 - 4 * (1 / 64)) ^ 2 + 1 / (2 ^ 49 * (1 / 64))
        \<and> (\<forall>\<^sub>F m in sequentially.
             \<bar>currentScale (rigTicks True data_up (map steady [0..<m]) rig0) - 3\<bar> \<le> 1 / (2 ^ 48 * (1 / 64)))"
    by blast
  show ?thesis using h low v g p by blast
qed

section \<open>Properties of the gradient colour mapper\<close>

text \<open>
  The scan computes the minimum and the maximum of the heights.
\<close>

lemma scanBounds_Suc:
  "scanBounds (Suc n) tp = scanStep tp n (scanBounds n tp)"
  by (simp add: scanBounds_def)

lemma scanBounds_Min_Max:
  "0 < n \<Longrightarrow> scanBounds n tp = (Some (Min (heights n tp)), Some (Max (heights n tp)))"
proof (induction n)
  case 0
  then show ?case by simp
next
  case (Suc n)
  have hs: "heights (Suc n) tp = insert (tp ! (n * 3 + 1)) (heights n tp)"
    by (auto simp add: heights_def lessThan_Suc)
  show ?case
  proof (cases "n = 0")
    case True
    then show ?thesis
      by (simp add: scanBounds_def scanStep_def heights_def lessThan_Suc Let_def)
  next
    case False
    then have IH: "scanBounds n tp = (Some (Min (heights n tp)), Some (Max (heights n tp)))"
      using Suc by simp
    have fin: "finite (heights n tp)" and ne: "heights n tp \<noteq> {}"
      using False by (auto simp add: heights_def)
    have step: "scanStep tp n (Some lo, Some hi)
        = (Some (min (tp ! (n * 3 + 1)) lo), Some (max (tp ! (n * 3 + 1)) hi))" for lo hi
      by (auto simp add: scanStep_def Let_def min_def max_def)
    show ?thesis
      unfolding scanBounds_Suc IH hs step
      using fin ne by simp
  qed
qed

lemma gradientColor_spec:
  assumes "length pal = 5"
  shows "gradientColor (paletteColor pal 0) (paletteColor pal 1) (paletteColor pal 2)
           (paletteColor pal 3) (paletteColor pal 4) t = spec_gradient pal t"
proof -
  have p: "paletteColor pal 0 = pal ! 0" "paletteColor pal 1 = pal ! 1" "paletteColor pal 2 = pal ! 2"
    "paletteColor pal 3 = pal ! 3" "paletteColor pal 4 = pal ! 4"
    using assms by (simp_all add: paletteColor_def)
  note defs = gradientColor_def spec_gradient_def lerpColors_def mix_def
  consider "t < 1/4" | "t = 1/4" | "1/4 < t" "t < 1/2" | "t = 1/2" | "1/2 < t" "t < 3/4" | "t = 3/4" | "3/4 < t"
    by linarith
  then show ?thesis
  proof cases
    case 1
    then show ?thesis unfolding p by (simp add: defs algebra_simps)
  next
    case 2
    show ?thesis unfolding p 2 by (simp add: defs)
  next
    case 3
    then show ?thesis unfolding p by (simp add: defs algebra_simps)
  next
    case 4
    show ?thesis unfolding p 4 by (simp add: defs)
  next
    case 5
    then show ?thesis unfolding p by (simp add: defs algebra_simps)
  next
    case 6
    show ?thesis unfolding p 6 by (simp add: defs)
  next
    case 7
    then show ?thesis unfolding p by (simp add: defs algebra_simps)
  qed
qed

lemma colorStep_length: "length (colorStep pal tp lo h i cs) = length cs"
  by (simp add: colorStep_def Let_def split: option.splits)

lemma colorFold_length: "length (fold (colorStep pal tp lo h) [0..<n] cs) = length cs"
  by (induction n) (simp_all add: colorStep_length)

lemma colorStep_same:
  assumes "i * 3 + 2 < length cs" and "h \<noteq> 0"
  shows "particleColor (colorStep pal tp lo h i cs) i = Some (colorAt pal tp lo h i)"
  using assms by (simp add: colorStep_def particleColor_def colorAt_def js_div_def clampUnit_def Let_def)

lemma colorStep_nan:
  assumes "i * 3 + 2 < length cs" and "tp ! (i * 3 + 1) = lo"
  shows "particleColor (colorStep pal tp lo 0 i cs) i = None"
  using assms by (simp add: colorStep_def particleColor_def js_div_def clampUnit_def Let_def)

lemma colorStep_other:
  assumes "i \<noteq> j"
  shows "particleColor (colorStep pal tp lo h j cs) i = particleColor cs i"
proof -
  have "i * 3 \<noteq> j * 3" "i * 3 \<noteq> j * 3 + 1" "i * 3 \<noteq> j * 3 + 2"
    "i * 3 + 1 \<noteq> j * 3" "i * 3 + 1 \<noteq> j * 3 + 1" "i * 3 + 1 \<noteq> j * 3 + 2"
    "i * 3 + 2 \<noteq> j * 3" "i * 3 + 2 \<noteq> j * 3 + 1" "i * 3 + 2 \<noteq> j * 3 + 2"
    using assms by presburger+
  then show ?thesis
    by (simp add: colorStep_def particleColor_def Let_def del: One_nat_def split: option.splits)
qed

lemma colorFold_particle:
  assumes "i < n" and "n * 3 \<le> length cs" and "h \<noteq> 0"
  shows "particleColor (fold (colorStep pal tp lo h) [0..<n] cs) i = Some (colorAt pal tp lo h i)"
  using assms(1,2)
proof (induction n)
  case 0
  then show ?case by simp
next
  case (Suc n)
  let ?cs = "fold (colorStep pal tp lo h) [0..<n] cs"
  have f: "fold (colorStep pal tp lo h) [0..<Suc n] cs = colorStep pal tp lo h n ?cs"
    by simp
  show ?case
  proof (cases "i = n")
    case True
    have "n * 3 + 2 < length ?cs" using Suc.prems by (simp add: colorFold_length)
    then show ?thesis unfolding f True using assms(3) by (rule colorStep_same)
  next
    case False
    then have "i < n" using Suc.prems by simp
    moreover have "n * 3 \<le> length cs" using Suc.prems by simp
    ultimately have "particleColor ?cs i = Some (colorAt pal tp lo h i)" by (rule Suc.IH)
    then show ?thesis unfolding f using False by (simp add: colorStep_other)
  qed
qed

lemma colorFold_nan:
  assumes "i < n" and "n * 3 \<le> length cs" and "tp ! (i * 3 + 1) = lo"
  shows "particleColor (fold (colorStep pal tp lo 0) [0..<n] cs) i = None"
  using assms(1,2)
proof (induction n)
  case 0
  then show ?case by simp
next
  case (Suc n)
  let ?cs = "fold (colorStep pal tp lo 0) [0..<n] cs"
  have f: "fold (colorStep pal tp lo 0) [0..<Suc n] cs = colorStep pal tp lo 0 n ?cs"
    by simp
  show ?case
  proof (cases "i = n")
    case True
    have "n * 3 + 2 < length ?cs" using Suc.prems by (simp add: colorFold_length)
    then show ?thesis unfolding f using assms(3) unfolding True by (rule colorStep_nan)
  next
    case False
    then have "i < n" using Suc.prems by simp
    moreover have "n * 3 \<le> length cs" using Suc.prems by simp
    ultimately have "particleColor ?cs i = None" by (rule Suc.IH)
    then show ?thesis unfolding f using False by (simp add: colorStep_other)
  qed
qed

lemma heightOf_nonzero: "heightOf lo hi \<noteq> 0"
  by (simp add: heightOf_def)

lemma clamp01_eq: "max 0 (min 1 t) = clamp01 t"
  by (simp add: clamp01_def max_def min_def)

lemma computeColors_particle:
  assumes "i < N" and "N * 3 \<le> length colors"
  shows "particleColor (computeColors True N pal tp colors) i
       = Some (colorAt pal tp (Min (heights N tp)) (heightOf (Min (heights N tp)) (Max (heights N tp))) i)"
proof -
  have "0 < N" using assms by simp
  then show ?thesis
    using assms by (simp add: computeColors_def scanBounds_Min_Max colorFold_particle heightOf_nonzero)
qed

lemma colorAt_spec:
  assumes "length pal = 5"
  shows "colorAt pal tp lo h i = spec_gradient pal (clamp01 ((tp ! (i * 3 + 1) - lo) / h))"
  unfolding colorAt_def clamp01_eq using assms by (rule gradientColor_spec)

lemma spec_gradient_ends:
  "spec_gradient pal 0 = pal ! 0" "spec_gradient pal 1 = pal ! 4"
  by (simp_all add: spec_gradient_def mix_def)

text \<open>
  Claim C5. For a target buffer whose heights have distinct minimum and maximum, the colour
  of every particle is the piecewise-linear gradient over the five palette colours at the
  breakpoints 0, 0.25, 0.5, 0.75, 1, taken at the particle's height normalised to the
  interval from 0 to 1 and clamped; a particle at the minimum height gets exactly the first
  palette colour and one at the maximum height exactly the fifth.
\<close>

theorem gradient_piecewise_linear:
  assumes "length pal = 5" and "length tp = N * 3" and "length colors = N * 3" and "i < N"
    and "Min (heights N tp) \<noteq> Max (heights N tp)"
  shows "0 \<le> clamp01 ((tp ! (i * 3 + 1) - Min (heights N tp)) / (Max (heights N tp) - Min (heights N tp)))
     \<and> clamp01 ((tp ! (i * 3 + 1) - Min (heights N tp)) / (Max (heights N tp) - Min (heights N tp))) \<le> 1
     \<and> particleColor (computeColors True N pal tp colors) i
         = Some (spec_gradient pal
             (clamp01 ((tp ! (i * 3 + 1) - Min (heights N tp)) / (Max (heights N tp) - Min (heights N tp)))))
     \<and> (tp ! (i * 3 + 1) = Min (heights N tp)
          \<longrightarrow> particleColor (computeColors True N pal tp colors) i = Some (pal ! 0))
     \<and> (tp ! (i * 3 + 1) = Max (heights N tp)
          \<longrightarrow> particleColor (computeColors True N pal tp colors) i = Some (pal ! 4))"
proof -
  let ?lo = "Min (heights N tp)" and ?hi = "Max (heights N tp)"
  let ?t = "clamp01 ((tp ! (i * 3 + 1) - ?lo) / (?hi - ?lo))"
  have h: "heightOf ?lo ?hi = ?hi - ?lo" using assms(5) by (simp add: heightOf_def)
  have c: "particleColor (computeColors True N pal tp colors) i = Some (spec_gradient pal ?t)"
    using assms(3,4)
    by (simp add: computeColors_particle h colorAt_spec [OF assms(1)])
  have r: "0 \<le> ?t" "?t \<le> 1" by (simp_all add: clamp01_def)
  have lo: "tp ! (i * 3 + 1) = ?lo \<longrightarrow> ?t = 0" by (simp add: clamp01_def)
  have hi: "tp ! (i * 3 + 1) = ?hi \<longrightarrow> ?t = 1" using assms(5) by (simp add: clamp01_def)
  have c0: "tp ! (i * 3 + 1) = ?lo \<longrightarrow> particleColor (computeColors True N pal tp colors) i = Some (pal ! 0)"
    using c lo by (simp add: spec_gradient_ends)
  have c1: "tp ! (i * 3 + 1) = ?hi \<longrightarrow> particleColor (computeColors True N pal tp colors) i = Some (pal ! 4)"
    using c hi by (simp add: spec_gradient_ends)
  show ?thesis using r c c0 c1 by blast
qed

text \<open>
  Claim C6. When all particles have the same height, the scan finds equal bounds and the
  mapper divides by the height 1, not by the difference 0 of the bounds: the quotient of
  every particle is the number 0, no channel of its colour is NaN, and the colour is exactly
  the first palette colour. With the difference itself as divisor the quotient would be
  NaN, and so would every channel.
\<close>

theorem gradient_degenerate:
  assumes "length pal = 5" and "length tp = N * 3" and "length colors = N * 3" and "i < N"
    and "\<forall>k<N. tp ! (k * 3 + 1) = c"
  shows "scanBounds N tp = (Some c, Some c) \<and> heightOf c c = 1
     \<and> computeColors True N pal tp colors = fold (colorStep pal tp c 1) [0..<N] colors
     \<and> js_div (tp ! (i * 3 + 1) - c) (heightOf c c) = Num 0
     \<and> particleColor (computeColors True N pal tp colors) i = Some (pal ! 0)
     \<and> js_div (tp ! (i * 3 + 1) - c) (c - c) = NaN
     \<and> particleColor (fold (colorStep pal tp c (c - c)) [0..<N] colors) i = None"
proof -
  have "0 < N" using assms(4) by simp
  then have hs: "heights N tp = {c}" using assms(5) by (auto simp add: heights_def)
  have b: "scanBounds N tp = (Some c, Some c)"
    using \<open>0 < N\<close> by (simp add: scanBounds_Min_Max hs)
  have y: "tp ! (i * 3 + 1) = c" using assms(4,5) by blast
  have h: "heightOf c c = 1" by (simp add: heightOf_def)
  have f: "computeColors True N pal tp colors = fold (colorStep pal tp c 1) [0..<N] colors"
    by (simp add: computeColors_def b h)
  have q: "js_div (tp ! (i * 3 + 1) - c) (heightOf c c) = Num 0"
    unfolding y h by (simp add: js_div_def)
  have "particleColor (computeColors True N pal tp colors) i = Some (spec_gradient pal 0)"
    using assms(3,4) y
    by (simp add: computeColors_particle hs colorAt_spec [OF assms(1)] clamp01_def)
  then have p: "particleColor (computeColors True N pal tp colors) i = Some (pal ! 0)"
    by (simp add: spec_gradient_ends)
  have n: "js_div (tp ! (i * 3 + 1) - c) (c - c) = NaN"
    unfolding y by (simp add: js_div_def)
  have "N * 3 \<le> length colors" by (simp add: assms(3))
  with assms(4) have "particleColor (fold (colorStep pal tp c 0) [0..<N] colors) i = None"
    using y by (rule colorFold_nan)
  then have m: "particleColor (fold (colorStep pal tp c (c - c)) [0..<N] colors) i = None"
    by simp
  show ?thesis using b h f q p n m by simp
qed

lemma heights_two: "heights 2 tp = {tp ! 1, tp ! 4}"
  by (auto simp add: heights_def numeral_2_eq_2 lessThan_Suc)

theorem gradient_piecewise_linear_witness:
  "length pal5 = 5 \<and> length tp_two = 2 * 3 \<and> length black2 = 2 * 3
   \<and> Min (heights 2 tp_two) \<noteq> Max (heights 2 tp_two)
   \<and> particleColor (computeColors True 2 pal5 tp_two black2) 0 = Some (rgb 1 0 0)
   \<and> particleColor (computeColors True 2 pal5 tp_two black2) 1 = Some (rgb 0 0 1)"
proof -
  have h: "length pal5 = 5" "length tp_two = 2 * 3" "length black2 = 2 * 3"
    by (simp_all add: pal5_def tp_two_def black2_def)
  have m: "Min (heights 2 tp_two) = - 1" "Max (heights 2 tp_two) = 3"
    by (simp_all add: heights_two tp_two_def)
  have d: "Min (heights 2 tp_two) \<noteq> Max (heights 2 tp_two)" unfolding m by simp
  have y: "tp_two ! (0 * 3 + 1) = - 1" "tp_two ! (1 * 3 + 1) = 3" by (simp_all add: tp_two_def)
  show ?thesis
    using gradient_piecewise_linear [OF h, of 0, OF _ d] gradient_piecewise_linear [OF h, of 1, OF _ d]
    unfolding m y using h d by (simp add: pal5_def clamp01_def spec_gradient_ends)
qed

theorem gradient_degenerate_witness:
  "length pal5 = 5 \<and> length tp_flat = 2 * 3 \<and> length black2 = 2 * 3
   \<and> tp_flat ! (0 * 3 + 1) = 5 \<and> tp_flat ! (1 * 3 + 1) = 5
   \<and> scanBounds 2 tp_flat = (Some 5, Some 5)
   \<and> particleColor (computeColors True 2 pal5 tp_flat black2) 0 = Some (rgb 1 0 0)
   \<and> particleColor (computeColors True 2 pal5 tp_flat black2) 1 = Some (rgb 1 0 0)
   \<and> particleColor (fold (colorStep pal5 tp_flat 5 (5 - 5)) [0..<2] black2) 0 = None
   \<and> particleColor (fold (colorStep pal5 tp_flat 5 (5 - 5)) [0..<2] black2) 1 = None"
proof -
  have h: "length pal5 = 5" "length tp_flat = 2 * 3" "length black2 = 2 * 3"
    by (simp_all add: pal5_def tp_flat_def black2_def)
  have f: "\<forall>k<2. tp_flat ! (k * 3 + 1) = 5"
    by (simp add: tp_flat_def numeral_2_eq_2 less_Suc_eq)
  have y: "tp_flat ! (0 * 3 + 1) = 5" "tp_flat ! (1 * 3 + 1) = 5" by (simp_all add: tp_flat_def)
  have p: "pal5 ! 0 = rgb 1 0 0" by (simp add: pal5_def)
  have i: "(0::nat) < 2" "(1::nat) < 2" by simp_all
  note a = gradient_degenerate [OF h i(1) f] and b = gradient_degenerate [OF h i(2) f]
  have s: "scanBounds 2 tp_flat = (Some 5, Some 5)" using a by blast
  have a1: "particleColor (computeColors True 2 pal5 tp_flat black2) 0 = Some (rgb 1 0 0)"
    using a unfolding p by blast
  have b1: "particleColor (computeColors True 2 pal5 tp_flat black2) 1 = Some (rgb 1 0 0)"
    using b unfolding p by blast
  have a2: "particleColor (fold (colorStep pal5 tp_flat 5 (5 - 5)) [0..<2] black2) 0 = None"
    using a by blast
  have b2: "particleColor (fold (colorStep pal5 tp_flat 5 (5 - 5)) [0..<2] black2) 1 = None"
    using b by blast
  show ?thesis using h y s a1 b1 a2 b2 by blast
qed

section \<open>Properties of the morph engine\<close>

lemma morphStep_length: "length (morphStep time speed ns tp i cur) = length cur"
  by (simp add: morphStep_def Let_def)

lemma morphFold_length: "length (fold (morphStep time speed ns tp) [0..<n] cur) = length cur"
  by (induction n) (simp_all add: morphStep_length)

lemma morphStep_same:
  assumes "i * 3 + 2 < length cur" and "ns > 0.01"
  shows "morphStep time speed ns tp i cur ! (i * 3)
           = morphed tp cur (i * 3) + sin (time * speed + morphed tp cur (i * 3 + 1) * 0.5) * (ns * 0.1)"
    and "morphStep time speed ns tp i cur ! (i * 3 + 1)
           = morphed tp cur (i * 3 + 1) + cos (time * speed + morphed tp cur (i * 3) * 0.5) * (ns * 0.1)"
    and "morphStep time speed ns tp i cur ! (i * 3 + 2)
           = morphed tp cur (i * 3 + 2) + sin (time * speed + morphed tp cur (i * 3 + 2) * 0.5) * (ns * 0.1)"
  using assms by (simp_all add: morphStep_def morphed_def Let_def)

lemma morphStep_other:
  assumes "k \<noteq> j * 3" and "k \<noteq> j * 3 + 1" and "k \<noteq> j * 3 + 2"
  shows "morphStep time speed ns tp j cur ! k = cur ! k"
  using assms by (simp add: morphStep_def Let_def del: One_nat_def)

lemma morphFold_untouched:
  assumes "n * 3 \<le> k"
  shows "fold (morphStep time speed ns tp) [0..<n] cur ! k = cur ! k"
  using assms
proof (induction n)
  case 0
  then show ?case by simp
next
  case (Suc n)
  have "k \<noteq> n * 3" "k \<noteq> n * 3 + 1" "k \<noteq> n * 3 + 2" "n * 3 \<le> k"
    using Suc.prems by simp_all
  then show ?case using Suc.IH by (simp add: morphStep_other)
qed

lemma morphed_untouched:
  assumes "n * 3 \<le> k"
  shows "morphed tp (fold (morphStep time speed ns tp) [0..<n] cur) k = morphed tp cur k"
  using assms by (simp add: morphed_def morphFold_untouched)

lemma morphFold_particle:
  assumes "i < n" and "n * 3 \<le> length cur" and "ns > 0.01"
  shows "fold (morphStep time speed ns tp) [0..<n] cur ! (i * 3)
           = morphed tp cur (i * 3) + sin (time * speed + morphed tp cur (i * 3 + 1) * 0.5) * (ns * 0.1)
       \<and> fold (morphStep time speed ns tp) [0..<n] cur ! (i * 3 + 1)
           = morphed tp cur (i * 3 + 1) + cos (time * speed + morphed tp cur (i * 3) * 0.5) * (ns * 0.1)
       \<and> fold (morphStep time speed ns tp) [0..<n] cur ! (i * 3 + 2)
           = morphed tp cur (i * 3 + 2) + sin (time * speed + morphed tp cur (i * 3 + 2) * 0.5) * (ns * 0.1)"
  using assms(1,2)
proof (induction n)
  case 0
  then show ?case by simp
next
  case (Suc n)
  let ?cur = "fold (morphStep time speed ns tp) [0..<n] cur"
  have f: "fold (morphStep time speed ns tp) [0..<Suc n] cur = morphStep time speed ns tp n ?cur"
    by simp
  show ?case
  proof (cases "i = n")
    case True
    have len: "n * 3 + 2 < length ?cur" using Suc.prems by (simp add: morphFold_length)
    have u: "morphed tp ?cur (n * 3) = morphed tp cur (n * 3)"
      "morphed tp ?cur (n * 3 + 1) = morphed tp cur (n * 3 + 1)"
      "morphed tp ?cur (n * 3 + 2) = morphed tp cur (n * 3 + 2)"
      by (simp_all add: morphed_untouched)
    show ?thesis
      unfolding f True morphStep_same [OF len assms(3)] u by simp
  next
    case False
    then have lt: "i < n" using Suc.prems by simp
    have a: "i * 3 \<noteq> n * 3" "i * 3 \<noteq> n * 3 + 1" "i * 3 \<noteq> n * 3 + 2"
      and b: "i * 3 + 1 \<noteq> n * 3" "i * 3 + 1 \<noteq> n * 3 + 1" "i * 3 + 1 \<noteq> n * 3 + 2"
      and c: "i * 3 + 2 \<noteq> n * 3" "i * 3 + 2 \<noteq> n * 3 + 1" "i * 3 + 2 \<noteq> n * 3 + 2"
      using lt by presburger+
    have o: "morphStep time speed ns tp n ?cur ! (i * 3) = ?cur ! (i * 3)"
      "morphStep time speed ns tp n ?cur ! (i * 3 + 1) = ?cur ! (i * 3 + 1)"
      "morphStep time speed ns tp n ?cur ! (i * 3 + 2) = ?cur ! (i * 3 + 2)"
      by (rule morphStep_other [OF a], rule morphStep_other [OF b], rule morphStep_other [OF c])
    have "n * 3 \<le> length cur" using Suc.prems by simp
    with lt show ?thesis unfolding f o by (rule Suc.IH)
  qed
qed

text \<open>
  Claim C8, as amended. In a frame with \<open>noiseStrength\<close> above 0.01, the perturbation added
  to each axis of every particle is a sine or cosine of \<open>time * speed\<close> plus half a
  coordinate of the particle after the morph step, times \<open>noiseStrength * 0.1\<close>: the X
  perturbation reads the morphed Y, the Y perturbation reads the morphed X, and the Z
  perturbation reads the particle's own morphed Z.
\<close>

theorem noise_per_axis:
  assumes "noiseStrength > 0.01" and "i < N" and "length cur = N * 3" and "length targetPositions = N * 3"
  shows "perturbation N time speed noiseStrength targetPositions cur (i * 3)
           = sin (time * speed + morphed targetPositions cur (i * 3 + 1) * 0.5) * (noiseStrength * 0.1)
       \<and> perturbation N time speed noiseStrength targetPositions cur (i * 3 + 1)
           = cos (time * speed + morphed targetPositions cur (i * 3) * 0.5) * (noiseStrength * 0.1)
       \<and> perturbation N time speed noiseStrength targetPositions cur (i * 3 + 2)
           = sin (time * speed + morphed targetPositions cur (i * 3 + 2) * 0.5) * (noiseStrength * 0.1)"
proof -
  have "N * 3 \<le> length cur" using assms(3) by simp
  from morphFold_particle [OF assms(2) this assms(1), of time speed targetPositions]
  show ?thesis by (simp add: perturbation_def frameTick_def)
qed

text \<open>
  Claim C8 as stated, with the phase of every axis depending on the coordinate of another
  axis, fails for Z: two particles with the same morphed X and Y, at the same time, speed
  and noise strength, get different Z perturbations when only their Z differs.
\<close>

theorem noise_z_own_axis_counterexample:
  "morphed [0, 0, 0] [0, 0, 0] 0 = morphed [0, 0, 1] [0, 0, 1] 0
   \<and> morphed [0, 0, 0] [0, 0, 0] 1 = morphed [0, 0, 1] [0, 0, 1] 1
   \<and> perturbation 1 0 1 1 [0, 0, 0] [0, 0, 0] 2 \<noteq> perturbation 1 0 1 1 [0, 0, 1] [0, 0, 1] 2"
proof -
  have "0 < sin (1 / 2 :: real)"
    using pi_ge_two by (intro sin_gt_zero) auto
  then show ?thesis
    by (simp add: perturbation_def frameTick_def morphStep_def morphed_def Let_def)
qed

theorem noise_per_axis_witness:
  "(1::real) > 0.01 \<and> length [0, 0, 1 :: real] = 1 * 3
   \<and> perturbation 1 0 1 1 [0, 0, 1] [0, 0, 1] 0 = 0
   \<and> perturbation 1 0 1 1 [0, 0, 1] [0, 0, 1] 1 = 1 / 10
   \<and> perturbation 1 0 1 1 [0, 0, 1] [0, 0, 1] 2 = sin (1 / 2) / 10"
  using noise_per_axis [of 1 0 1 "[0, 0, 1]" "[0, 0, 1]" 0 1]
  by (simp add: morphed_def numeral_2_eq_2)

section \<open>Properties of the AI concept mapping\<close>


















section \<open>Properties of the shape generator\<close>

text \<open>
  Writing the three channels of a particle, and the fallback fill as a list.
\<close>

lemma take_write3:
  assumes "i * 3 + 3 \<le> length p"
  shows "take (i * 3 + 3) (p[i * 3 := a, i * 3 + 1 := b, i * 3 + 2 := c]) = take (i * 3) p @ [a, b, c]"
proof (rule nth_equalityI)
  show "length (take (i * 3 + 3) (p[i * 3 := a, i * 3 + 1 := b, i * 3 + 2 := c])) = length (take (i * 3) p @ [a, b, c])"
    using assms by simp
next
  fix m
  assume "m < length (take (i * 3 + 3) (p[i * 3 := a, i * 3 + 1 := b, i * 3 + 2 := c]))"
  then have m: "m < i * 3 + 3" by simp
  consider "m < i * 3" | "m = i * 3" | "m = i * 3 + 1" | "m = i * 3 + 2"
    using m by linarith
  then show "take (i * 3 + 3) (p[i * 3 := a, i * 3 + 1 := b, i * 3 + 2 := c]) ! m = (take (i * 3) p @ [a, b, c]) ! m"
  proof cases
    case 1
    then show ?thesis using assms by (simp add: nth_append)
  next
    case 2
    then show ?thesis using assms by (simp add: nth_append)
  next
    case 3
    then show ?thesis using assms by (simp add: nth_append)
  next
    case 4
    then show ?thesis using assms by (simp add: nth_append)
  qed
qed

declare heartFill.simps [simp del]

lemma heartFill_eq:
  "idx \<le> N \<Longrightarrow> length p = N * 3 \<Longrightarrow> heartFill N idx p = take (idx * 3) p @ replicate ((N - idx) * 3) 0"
proof (induction N idx p rule: heartFill.induct)
  case (1 N idx p)
  show ?case
  proof (cases "idx < N")
    case True
    let ?p = "p[idx * 3 := 0, idx * 3 + 1 := 0, idx * 3 + 2 := 0]"
    have len: "idx * 3 + 3 \<le> length p" using True "1.prems" by simp
    have "heartFill N idx p = heartFill N (idx + 1) ?p" using True by (subst heartFill.simps) simp
    also have "\<dots> = take ((idx + 1) * 3) ?p @ replicate ((N - (idx + 1)) * 3) 0"
      using True "1.prems" by (intro "1.IH") simp_all
    also have "take ((idx + 1) * 3) ?p = take (idx * 3) p @ [0, 0, 0]"
      using take_write3 [OF len] by (simp add: algebra_simps)
    also have "(take (idx * 3) p @ [0, 0, 0]) @ replicate ((N - (idx + 1)) * 3) 0
        = take (idx * 3) p @ replicate ((N - idx) * 3) 0"
    proof -
      have "(N - idx) * 3 = 3 + (N - (idx + 1)) * 3" using True by simp
      then have "replicate ((N - idx) * 3) (0::real) = replicate 3 0 @ replicate ((N - (idx + 1)) * 3) 0"
        by (simp only: replicate_add)
      moreover have "replicate 3 (0::real) = [0, 0, 0]" by (simp add: numeral_3_eq_3)
      ultimately show ?thesis by simp
    qed
    finally show ?thesis .
  next
    case False
    then have "idx = N" using "1.prems" by simp
    then show ?thesis using "1.prems" by (subst heartFill.simps) simp
  qed
qed

declare heartLoop.simps [simp del]

text \<open>
  The sampling loop of the heart: what it keeps, what it returns, and that its result
  does not depend on the buffer it starts from.
\<close>

lemma heartWrite_length: "length (heartWrite p idx s) = length p"
  by (cases s) (simp add: heartWrite_def)

lemma heartWrite_below:
  assumes "m < idx * 3"
  shows "heartWrite p idx s ! m = p ! m"
  using assms by (cases s) (simp add: heartWrite_def)


lemma heartLoop_accept:
  assumes "idx < N" and "attempt < mx" and "heartAccept (fst (heartSample src k))"
  shows "heartLoop src N mx idx attempt p k
       = heartLoop src N mx (idx + 1) (attempt + 1) (heartWrite p idx (fst (heartSample src k)))
           (snd (heartSample src k))"
  using assms by (subst heartLoop.simps) simp

lemma heartLoop_reject:
  assumes "idx < N" and "attempt < mx" and "\<not> heartAccept (fst (heartSample src k))"
  shows "heartLoop src N mx idx attempt p k
       = heartLoop src N mx idx (attempt + 1) p (snd (heartSample src k))"
  using assms by (subst heartLoop.simps) simp

lemma heartLoop_stop:
  assumes "\<not> (idx < N \<and> attempt < mx)"
  shows "heartLoop src N mx idx attempt p k = (idx, p, k)"
  using assms by (subst heartLoop.simps) auto

lemma heartSample_snd: "snd (heartSample src k) = k + 3"
  by (simp add: heartSample_def random_between_def Math_random_def Let_def)

lemma heartLoop_shape:
  "idx \<le> N \<Longrightarrow>
     fst (heartLoop src N mx idx attempt p k) \<le> N
   \<and> idx \<le> fst (heartLoop src N mx idx attempt p k)
   \<and> length (fst (snd (heartLoop src N mx idx attempt p k))) = length p
   \<and> (\<forall>m<idx * 3. fst (snd (heartLoop src N mx idx attempt p k)) ! m = p ! m)
   \<and> snd (snd (heartLoop src N mx idx attempt p k)) \<le> k + 3 * (mx - attempt)"
proof (induction src N mx idx attempt p k rule: heartLoop.induct)
  case (1 src N mx idx attempt p k)
  show ?case
  proof (cases "idx < N \<and> attempt < mx")
    case False
    then show ?thesis using "1.prems" by (simp add: heartLoop_stop)
  next
    case run: True
    show ?thesis
    proof (cases "heartAccept (fst (heartSample src k))")
      case True
      have e: "heartLoop src N mx idx attempt p k
          = heartLoop src N mx (idx + 1) (attempt + 1) (heartWrite p idx (fst (heartSample src k)))
              (snd (heartSample src k))"
        using run True by (simp add: heartLoop_accept)
      have "idx + 1 \<le> N" using run by simp
      from "1.IH"(1) [OF run True this] show ?thesis
        unfolding e using run
        by (auto simp add: heartWrite_length heartWrite_below heartSample_snd)
    next
      case False
      have e: "heartLoop src N mx idx attempt p k
          = heartLoop src N mx idx (attempt + 1) p (snd (heartSample src k))"
        using run False by (simp add: heartLoop_reject)
      from "1.IH"(2) [OF run False "1.prems"] show ?thesis
        unfolding e using run by (auto simp add: heartSample_snd)
    qed
  qed
qed

lemma heartLoop_indep:
  "idx \<le> N \<Longrightarrow> N * 3 \<le> length p \<Longrightarrow> length p' = length p \<Longrightarrow> (\<forall>m<idx * 3. p' ! m = p ! m) \<Longrightarrow>
     fst (heartLoop src N mx idx attempt p' k) = fst (heartLoop src N mx idx attempt p k)
   \<and> snd (snd (heartLoop src N mx idx attempt p' k)) = snd (snd (heartLoop src N mx idx attempt p k))
   \<and> (\<forall>m<fst (heartLoop src N mx idx attempt p k) * 3.
         fst (snd (heartLoop src N mx idx attempt p' k)) ! m = fst (snd (heartLoop src N mx idx attempt p k)) ! m)"
proof (induction src N mx idx attempt p k arbitrary: p' rule: heartLoop.induct)
  case (1 src N mx idx attempt p k)
  show ?case
  proof (cases "idx < N \<and> attempt < mx")
    case False
    then show ?thesis using "1.prems" by (simp add: heartLoop_stop)
  next
    case run: True
    let ?s = "fst (heartSample src k)"
    show ?thesis
    proof (cases "heartAccept ?s")
      case True
      have e: "heartLoop src N mx idx attempt q k
          = heartLoop src N mx (idx + 1) (attempt + 1) (heartWrite q idx ?s) (snd (heartSample src k))" for q
        using run True by (simp add: heartLoop_accept)
      have a: "idx + 1 \<le> N" using run by simp
      have b: "N * 3 \<le> length (heartWrite p idx ?s)" using "1.prems" by (simp add: heartWrite_length)
      have c: "length (heartWrite p' idx ?s) = length (heartWrite p idx ?s)"
        using "1.prems" by (simp add: heartWrite_length)
      have d: "\<forall>m<(idx + 1) * 3. heartWrite p' idx ?s ! m = heartWrite p idx ?s ! m"
      proof (intro allI impI)
        fix m assume m: "m < (idx + 1) * 3"
        have len: "idx * 3 + 2 < length p" "idx * 3 + 2 < length p'" using run "1.prems" by simp_all
        consider "m < idx * 3" | "m = idx * 3" | "m = idx * 3 + 1" | "m = idx * 3 + 2"
          using m by (simp add: algebra_simps) linarith
        then show "heartWrite p' idx ?s ! m = heartWrite p idx ?s ! m"
        proof cases
          case 1
          then show ?thesis using "1.prems" by (simp add: heartWrite_below)
        next
          case 2
          then show ?thesis using len by (cases ?s) (simp add: heartWrite_def)
        next
          case 3
          then show ?thesis using len by (cases ?s) (simp add: heartWrite_def)
        next
          case 4
          then show ?thesis using len by (cases ?s) (simp add: heartWrite_def)
        qed
      qed
      from "1.IH"(1) [OF run True a b c d] show ?thesis
        unfolding e [of p] e [of p'] .
    next
      case False
      have e: "heartLoop src N mx idx attempt q k
          = heartLoop src N mx idx (attempt + 1) q (snd (heartSample src k))" for q
        using run False by (simp add: heartLoop_reject)
      from "1.IH"(2) [OF run False "1.prems"] show ?thesis
        unfolding e [of p] e [of p'] .
    qed
  qed
qed


lemma write3_agree:
  assumes "length q' = length q" and "i * 3 + 2 < length q" and "\<forall>m<i * 3. q' ! m = q ! m"
    and "m < (i + 1) * 3"
  shows "q'[i * 3 := a, i * 3 + 1 := b, i * 3 + 2 := c] ! m = q[i * 3 := a, i * 3 + 1 := b, i * 3 + 2 := c] ! m"
proof -
  consider "m < i * 3" | "m = i * 3" | "m = i * 3 + 1" | "m = i * 3 + 2"
    using assms(4) by (simp add: algebra_simps) linarith
  then show ?thesis
  proof cases
    case 1
    then show ?thesis using assms(3) by simp
  next
    case 2
    then show ?thesis using assms(1,2) by simp
  next
    case 3
    then show ?thesis using assms(1,2) by simp
  next
    case 4
    then show ?thesis using assms(1,2) by simp
  qed
qed

lemma shapeStep_eq:
  "shapeStep ty src N i (q, k) =
     (q[i * 3 := fround (fst (fst (shapePoint ty src N i k))),
        i * 3 + 1 := fround (fst (snd (fst (shapePoint ty src N i k)))),
        i * 3 + 2 := fround (snd (snd (fst (shapePoint ty src N i k))))],
      snd (shapePoint ty src N i k))"
  by (simp add: shapeStep_def split: prod.splits)

lemma shapeFold_indep:
  "n * 3 \<le> length p \<Longrightarrow> length p' = length p \<Longrightarrow>
     snd (fold (shapeStep ty src N) [0..<n] (p', k)) = snd (fold (shapeStep ty src N) [0..<n] (p, k))
   \<and> length (fst (fold (shapeStep ty src N) [0..<n] (p, k))) = length p
   \<and> length (fst (fold (shapeStep ty src N) [0..<n] (p', k))) = length p
   \<and> (\<forall>m<n * 3. fst (fold (shapeStep ty src N) [0..<n] (p', k)) ! m
                  = fst (fold (shapeStep ty src N) [0..<n] (p, k)) ! m)"
proof (induction n)
  case 0
  then show ?case by simp
next
  case (Suc n)
  obtain q kq where r: "fold (shapeStep ty src N) [0..<n] (p, k) = (q, kq)" by fastforce
  obtain q' kq' where r': "fold (shapeStep ty src N) [0..<n] (p', k) = (q', kq')" by fastforce
  have "n * 3 \<le> length p" using Suc.prems by simp
  from Suc.IH [OF this Suc.prems(2)]
  have k: "kq' = kq" and l: "length q = length p" "length q' = length p"
    and ag: "\<forall>m<n * 3. q' ! m = q ! m"
    unfolding r r' by simp_all
  have len: "n * 3 + 2 < length q" "length q' = length q" using Suc.prems l by simp_all
  have "\<forall>m<Suc n * 3.
      fst (shapeStep ty src N n (q', kq)) ! m = fst (shapeStep ty src N n (q, kq)) ! m"
    unfolding shapeStep_eq fst_conv
    using write3_agree [OF len(2) len(1) ag] by simp
  then show ?case
    using l by (simp add: r r' k shapeStep_eq)
qed

lemma fillParticles_shape_indep:
  assumes "ty \<noteq> HEART" and "length init = N * 3" and "length init' = N * 3"
  shows "fillParticles N ty src k init' = fillParticles N ty src k init
     \<and> length (fst (fillParticles N ty src k init)) = N * 3"
proof -
  let ?r = "fold (shapeStep ty src N) [0..<N] (init, k)"
  let ?r' = "fold (shapeStep ty src N) [0..<N] (init', k)"
  have a: "N * 3 \<le> length init" and b: "length init' = length init" using assms by simp_all
  note h = shapeFold_indep [OF a b, of ty src N k]
  have "fst ?r' = fst ?r"
    by (rule nth_equalityI) (use h assms in simp_all)
  moreover have "snd ?r' = snd ?r" using h by blast
  ultimately have "?r' = ?r" by (rule prod_eqI)
  then show ?thesis using assms h by (simp add: fillParticles_def)
qed

lemma fillParticles_heart:
  assumes "length init = N * 3"
  shows "fillParticles N HEART src k init =
     (take (fst (heartLoop src N (N * 20) 0 0 init k) * 3) (fst (snd (heartLoop src N (N * 20) 0 0 init k)))
        @ replicate ((N - fst (heartLoop src N (N * 20) 0 0 init k)) * 3) 0,
      snd (snd (heartLoop src N (N * 20) 0 0 init k)))"
proof -
  have s: "fst (heartLoop src N (N * 20) 0 0 init k) \<le> N"
    "length (fst (snd (heartLoop src N (N * 20) 0 0 init k))) = N * 3"
    using heartLoop_shape [of 0 N src "N * 20" 0 init k] assms by simp_all
  show ?thesis
    using heartFill_eq [OF s] by (simp add: fillParticles_def case_prod_beta Let_def)
qed

lemma fillParticles_heart_indep:
  assumes "length init = N * 3" and "length init' = N * 3"
  shows "fillParticles N HEART src k init' = fillParticles N HEART src k init
     \<and> length (fst (fillParticles N HEART src k init)) = N * 3"
proof -
  let ?r = "heartLoop src N (N * 20) 0 0 init k"
  let ?r' = "heartLoop src N (N * 20) 0 0 init' k"
  have sh: "fst ?r \<le> N" "length (fst (snd ?r)) = N * 3"
    using heartLoop_shape [of 0 N src "N * 20" 0 init k] assms by simp_all
  have sh': "length (fst (snd ?r')) = N * 3"
    using heartLoop_shape [of 0 N src "N * 20" 0 init' k] assms by simp_all
  have i: "fst ?r' = fst ?r" "snd (snd ?r') = snd (snd ?r)"
    "\<forall>m<fst ?r * 3. fst (snd ?r') ! m = fst (snd ?r) ! m"
    using heartLoop_indep [of 0 N init init' src "N * 20" 0 k] assms by simp_all
  have "take (fst ?r * 3) (fst (snd ?r')) = take (fst ?r * 3) (fst (snd ?r))"
    by (rule nth_take_lemma) (use sh sh' i in simp_all)
  then have "fillParticles N HEART src k init' = fillParticles N HEART src k init"
    unfolding fillParticles_heart [OF assms(1)] fillParticles_heart [OF assms(2)] i by simp
  moreover have "length (fst (fillParticles N HEART src k init)) = N * 3"
    unfolding fillParticles_heart [OF assms(1)] using sh by (simp add: algebra_simps flip: distrib_right)
  ultimately show ?thesis by blast
qed



lemma generate_heart:
  "generateParticlesN N HEART src k =
     (take (heartPlaced N src k * 3) (fst (snd (heartLoop src N (N * 20) 0 0 (replicate (N * 3) 0) k)))
        @ replicate ((N - heartPlaced N src k) * 3) 0,
      snd (snd (heartLoop src N (N * 20) 0 0 (replicate (N * 3) 0) k)))"
  unfolding generateParticlesN_def heartPlaced_def by (rule fillParticles_heart) simp

lemma heartPlaced_le: "heartPlaced N src k \<le> N"
  unfolding heartPlaced_def using heartLoop_shape [of 0 N src "N * 20" 0 "replicate (N * 3) 0" k] by simp



lemma particle_fill:
  assumes "length xs = n * 3" and "n \<le> j" and "j < N"
  shows "particle (xs @ replicate ((N - n) * 3) 0) j = (0, 0, 0)"
proof -
  have "j * 3 + 2 - n * 3 < (N - n) * 3" "j * 3 + 1 - n * 3 < (N - n) * 3" "j * 3 - n * 3 < (N - n) * 3"
    using assms(2,3) by auto
  moreover have "\<not> j * 3 + 2 < n * 3" "\<not> j * 3 + 1 < n * 3" "\<not> j * 3 < n * 3"
    using assms(2) by auto
  ultimately show ?thesis
    using assms(1) by (simp add: particle_def nth_append del: replicate_0)
qed


lemma heart_unplaced_particle:
  assumes "heartPlaced N src k \<le> j" and "j < N"
  shows "particle (fst (generateParticlesN N HEART src k)) j = (0, 0, 0)"
proof -
  let ?r = "heartLoop src N (N * 20) 0 0 (replicate (N * 3) 0) k"
  have len: "length (fst (snd ?r)) = N * 3"
    using heartLoop_shape [of 0 N src "N * 20" 0 "replicate (N * 3) 0" k] by simp
  have "length (take (heartPlaced N src k * 3) (fst (snd ?r))) = heartPlaced N src k * 3"
    using len heartPlaced_le [of N src k] by simp
  then show ?thesis
    unfolding generate_heart fst_conv using assms by (rule particle_fill)
qed

text \<open>
  Claim C1. For every shape of the enumeration and for an unlisted selector, for every
  particle count \<open>N\<close> and every source of random numbers, the generator returns (the loops
  terminate, nothing throws) a buffer of exactly \<open>3 * N\<close> numbers, with \<open>N = 15000\<close> as the
  source has it, and every entry of it is written: started on any buffer of that length,
  the body leaves the same result as on the fresh one. For the heart, the sampling loop places at most \<open>N\<close> particles in at most
  \<open>20 * N\<close> attempts (three draws each), and every particle it did not place lies at the
  origin.
\<close>

theorem generate_full_buffer:
  "length (fst (generateParticlesN N ty src k)) = N * 3
   \<and> length (fst (generateParticles ty src k)) = 3 * 15000
   \<and> (\<forall>init. length init = N * 3 \<longrightarrow> fillParticles N ty src k init = generateParticlesN N ty src k)
   \<and> heartPlaced N src k \<le> N
   \<and> (\<forall>j. heartPlaced N src k \<le> j \<and> j < N \<longrightarrow>
        particle (fst (generateParticlesN N HEART src k)) j = (0, 0, 0))
   \<and> snd (generateParticlesN N HEART src k) \<le> k + 3 * (N * 20)"
proof -
  have z: "length (replicate (N * 3) (0::real)) = N * 3" by simp
  have full: "fillParticles N ty src k init = generateParticlesN N ty src k
      \<and> length (fst (generateParticlesN N ty src k)) = N * 3" if "length init = N * 3" for init
  proof (cases "ty = HEART")
    case True
    show ?thesis
      unfolding generateParticlesN_def True using fillParticles_heart_indep [OF z that] .
  next
    case False
    show ?thesis
      unfolding generateParticlesN_def using fillParticles_shape_indep [OF False z that] .
  qed
  have len: "length (fst (generateParticlesN N ty src k)) = N * 3" using full [OF z] by blast
  have draws: "snd (generateParticlesN N HEART src k) \<le> k + 3 * (N * 20)"
    unfolding generate_heart snd_conv
    using heartLoop_shape [of 0 N src "N * 20" 0 "replicate (N * 3) 0" k] by simp
  have z': "length (replicate (PARTICLE_COUNT * 3) (0::real)) = PARTICLE_COUNT * 3" by simp
  have "length (fst (generateParticles ty src k)) = PARTICLE_COUNT * 3"
  proof (cases "ty = HEART")
    case True
    show ?thesis
      unfolding generateParticles_def generateParticlesN_def True
      using fillParticles_heart_indep [OF z' z'] by blast
  next
    case False
    show ?thesis
      unfolding generateParticles_def generateParticlesN_def
      using fillParticles_shape_indep [OF False z' z'] by blast
  qed
  then have len': "length (fst (generateParticles ty src k)) = 3 * 15000"
    by (simp add: PARTICLE_COUNT_def)
  show ?thesis
    using len len' full heartPlaced_le [of N src k] heart_unplaced_particle [of N src k] draws by blast
qed
















lemma corner_never:
  "fst (heartLoop src_corner N mx idx attempt p k) = idx
   \<and> fst (snd (heartLoop src_corner N mx idx attempt p k)) = p"
proof (induction src_corner N mx idx attempt p k rule: heartLoop.induct)
  case (1 N mx idx attempt p k)
  have rej: "\<not> heartAccept (fst (heartSample src_corner k))"
    by (simp add: heartSample_def random_between_def Math_random_def src_corner_def Let_def
        heartAccept_def power3_eq_cube)
  show ?case
  proof (cases "idx < N \<and> attempt < mx")
    case False
    then show ?thesis by (simp add: heartLoop_stop)
  next
    case True
    have e: "heartLoop src_corner N mx idx attempt p k
        = heartLoop src_corner N mx idx (attempt + 1) p (snd (heartSample src_corner k))"
      using True rej by (simp add: heartLoop_reject)
    show ?thesis unfolding e using "1.hyps"(2) [OF True rej] .
  qed
qed


lemma quarter_generate: "generateParticlesN 1 UNLISTED src_quarter 0 = ([- 5, - 5, - 5], 3)"
  by (simp add: generateParticlesN_def fillParticles_def shapeStep_def shapePoint_def defaultPoint_def
      random_between_def Math_random_def src_quarter_def Let_def numeral_3_eq_3 fround_minus5)

theorem generate_full_buffer_witness:
  "length [7, 7, 7 :: real] = 1 * 3
   \<and> fillParticles 1 UNLISTED src_quarter 0 [7, 7, 7] = ([- 5, - 5, - 5], 3)
   \<and> heartPlaced 1 src_corner 0 = 0
   \<and> particle (fst (generateParticlesN 1 HEART src_corner 0)) 0 = (0, 0, 0)
   \<and> length (fst (generateParticlesN 1 HEART src_corner 0)) = 1 * 3"
proof -
  have l: "length [7, 7, 7 :: real] = 1 * 3" by simp
  have h: "heartPlaced 1 src_corner 0 = 0" unfolding heartPlaced_def by (simp add: corner_never)
  have a: "fillParticles 1 UNLISTED src_quarter 0 [7, 7, 7] = ([- 5, - 5, - 5], 3)"
    using generate_full_buffer [of 1 UNLISTED src_quarter 0] l unfolding quarter_generate by blast
  have "heartPlaced 1 src_corner 0 \<le> 0 \<and> (0::nat) < 1" unfolding h by simp
  then have b: "particle (fst (generateParticlesN 1 HEART src_corner 0)) 0 = (0, 0, 0)"
    using generate_full_buffer [of 1 HEART src_corner 0] by blast
  have c: "length (fst (generateParticlesN 1 HEART src_corner 0)) = 1 * 3"
    using generate_full_buffer [of 1 HEART src_corner 0] by blast
  show ?thesis using l a h b c by blast
qed

end
